theory Spec2Isabelle
  imports Complex_Main "HOL-Library.AList" "HOL-Library.Sublist"
begin

section \<open>Data model\<close>

text \<open>
  The circulation core of the library system: the models \<open>Book\<close>, \<open>BorrowingRecord\<close>,
  the domain classes \<open>Borrower\<close> and \<open>Library\<close> (both in \<open>src/domains/Borrower.ts\<close>) and
  the policy table. Field names are the source's; a field name that several classes share
  (\<open>id\<close>, \<open>name\<close>, \<open>borrowingHistory\<close>, ...) carries the class as a prefix.
\<close>

subsection \<open>Scalar types (\<open>types/common.types.ts\<close>)\<close>

type_synonym UUID = string
type_synonym Email = string
type_synonym PhoneNumber = string

text \<open>A \<open>Date\<close> is its time value: milliseconds since the epoch.\<close>

type_synonym DateTime = int

subsection \<open>Enumerations\<close>

datatype BorrowingStatus = ACTIVE | RETURNED | OVERDUE | EXTENDED | CANCELLED | RESERVED

datatype PhysicalState = EXCELLENT | GOOD | FAIR | POOR | DAMAGED | LOST | IN_REPAIR

datatype LibrarianRole = ADMIN | STANDARD | ASSISTANT | VOLUNTEER

text \<open>
  Modelled from the spec: \<open>BookCategory.enum.ts\<close> is not among the sources. The spec
  distinguishes a reference category from the default ones; the other values are those the
  repository's enum documentation lists.
\<close>

datatype BookCategory =
    FICTION | NON_FICTION | SCIENCE | TECHNOLOGY | HISTORY | BIOGRAPHY | PHILOSOPHY
  | RELIGION | POETRY | DRAMA | CHILDREN | YOUNG_ADULT | REFERENCE | EDUCATION | ART
  | MUSIC | TRAVEL | COOKING | HEALTH | SELF_HELP | BUSINESS | ECONOMICS | LAW
  | POLITICS | OTHER

datatype NotificationType =
    N_DUE_DATE | N_OVERDUE | N_EXTENSION_APPROVED | N_EXTENSION_DENIED | N_AVAILABILITY
  | N_RESERVATION_READY | N_ACCOUNT_SUSPENDED | N_ACCOUNT_ACTIVATED | N_GENERAL
  | N_COMMENT_APPROVED | N_COMMENT_REJECTED | N_NEW_BOOK_ADDED | N_CLAIM_RECEIVED
  | N_CLAIM_RESOLVED

subsection \<open>Models\<close>

text \<open>\<open>models/BorrowingRecord.model.ts\<close>\<close>

record BorrowingRecord =
  record_id :: UUID
  bookId :: UUID
  borrowerId :: UUID
  borrowDate :: DateTime
  dueDate :: DateTime
  returnDate :: "DateTime option"
  isExtended :: bool
  extensionCount :: int
  status :: BorrowingStatus

definition new_BorrowingRecord ::
  "UUID \<Rightarrow> UUID \<Rightarrow> UUID \<Rightarrow> DateTime \<Rightarrow> DateTime \<Rightarrow> BorrowingRecord" where
  "new_BorrowingRecord rid bid uid bdate ddate =
     \<lparr> record_id = rid, bookId = bid, borrowerId = uid, borrowDate = bdate,
       dueDate = ddate, returnDate = None, isExtended = False, extensionCount = 0,
       status = ACTIVE \<rparr>"

text \<open>
  The \<open>Book\<close> model. \<open>borrowingHistory\<close> is an array of references to
  \<open>BorrowingRecord\<close> objects that also live in the library's ledger; a reference is
  represented by the record's readonly \<open>id\<close>, under which the ledger stores the object.
  Each \<open>new Date()\<close> of a constructor is a clock reading passed as an argument.
\<close>

record Book =
  book_id :: UUID
  title :: string
  author :: string
  ISBN :: string
  publisher :: string
  publicationYear :: int
  category :: BookCategory
  isAvailable :: bool
  physicalState :: PhysicalState
  book_borrowingHistory :: "UUID list"
  isRestricted :: bool
  addedDate :: DateTime
  lastModified :: DateTime
  description :: string
  coverImageUrl :: string

definition new_Book ::
  "UUID \<Rightarrow> string \<Rightarrow> string \<Rightarrow> string \<Rightarrow> string \<Rightarrow> int \<Rightarrow> BookCategory \<Rightarrow> string \<Rightarrow> string
     \<Rightarrow> DateTime \<Rightarrow> DateTime \<Rightarrow> Book" where
  "new_Book bid ttl auth isbn pub yr cat descr cover t1 t2 =
     \<lparr> book_id = bid, title = ttl, author = auth, ISBN = isbn, publisher = pub,
       publicationYear = yr, category = cat, isAvailable = True,
       physicalState = EXCELLENT, book_borrowingHistory = [], isRestricted = False,
       addedDate = t1, lastModified = t2, description = descr, coverImageUrl = cover \<rparr>"

text \<open>\<open>models/Notification.model.ts\<close>\<close>

record Notification =
  notification_id :: UUID
  recipientId :: UUID
  senderId :: "UUID option"
  notification_type :: NotificationType
  message :: string
  createdDate :: DateTime
  isRead :: bool

subsection \<open>The \<open>Borrower\<close> and \<open>Librarian\<close> classes\<close>

record Borrower =
  borrower_id :: UUID
  borrower_name :: string
  borrower_firstname :: string
  borrower_email :: Email
  borrower_phone :: PhoneNumber
  borrower_address :: string
  registrationDate :: DateTime
  isAuthorized :: bool
  isActiveStatus :: bool
  suspensionEndDate :: "DateTime option"
  borrowedBooks :: "UUID list"
  borrower_borrowingHistory :: "UUID list"
  maxBooksAllowed :: int
  notificationsEnabled :: bool
  borrower_lastLogin :: DateTime

definition new_Borrower ::
  "UUID \<Rightarrow> string \<Rightarrow> string \<Rightarrow> Email \<Rightarrow> PhoneNumber \<Rightarrow> string \<Rightarrow> DateTime \<Rightarrow> DateTime
     \<Rightarrow> Borrower" where
  "new_Borrower uid nm fn em ph addr t1 t2 =
     \<lparr> borrower_id = uid, borrower_name = nm, borrower_firstname = fn,
       borrower_email = em, borrower_phone = ph, borrower_address = addr,
       registrationDate = t1, isAuthorized = False, isActiveStatus = True,
       suspensionEndDate = None, borrowedBooks = [], borrower_borrowingHistory = [],
       maxBooksAllowed = 3, notificationsEnabled = True, borrower_lastLogin = t2 \<rparr>"

record Librarian =
  librarian_id :: UUID
  librarian_name :: string
  librarian_firstname :: string
  librarian_email :: Email
  librarian_phone :: PhoneNumber
  hireDate :: DateTime
  role :: LibrarianRole
  librarian_isActiveStatus :: bool
  librarian_lastLogin :: DateTime

text \<open>\<open>UserData\<close>, the registration DTO.\<close>

record UserData =
  name :: string
  firstname :: string
  email :: Email
  phone :: PhoneNumber
  address :: string

subsection \<open>The \<open>Library\<close> class\<close>

record DayHours =
  open_at :: string
  close_at :: string

record OpeningHours =
  monday :: DayHours
  tuesday :: DayHours
  wednesday :: DayHours
  thursday :: DayHours
  friday :: DayHours
  saturday :: DayHours
  sunday :: DayHours

text \<open>
  A JavaScript \<open>Map\<close> iterates in insertion order, and \<open>processReturn\<close> and
  \<open>getOverdueBorrowings\<close> depend on that order, so a \<open>Map\<close> is an association list:
  \<open>get\<close> is \<^const>\<open>map_of\<close>, \<open>set\<close> is \<^const>\<open>AList.update\<close> (an existing key keeps its
  position, a new key is appended), \<open>delete\<close> is \<^const>\<open>AList.delete\<close>.
\<close>

type_synonym ('k, 'v) js_map = "('k \<times> 'v) list"

record Library =
  library_id :: UUID
  library_name :: string
  library_address :: string
  library_phone :: PhoneNumber
  library_email :: Email
  openingHours :: OpeningHours
  books :: "(UUID, Book) js_map"
  users :: "(UUID, Borrower) js_map"
  librarians :: "(UUID, Librarian) js_map"
  borrowingRecords :: "(UUID, BorrowingRecord) js_map"
  notifications :: "(UUID, Notification) js_map"

definition new_Library ::
  "UUID \<Rightarrow> string \<Rightarrow> string \<Rightarrow> PhoneNumber \<Rightarrow> Email \<Rightarrow> OpeningHours \<Rightarrow> Library" where
  "new_Library lid nm addr ph em oh =
     \<lparr> library_id = lid, library_name = nm, library_address = addr, library_phone = ph,
       library_email = em, openingHours = oh, books = [], users = [], librarians = [],
       borrowingRecords = [], notifications = [] \<rparr>"

section \<open>Policy table (\<open>policies/business-rules.ts\<close>)\<close>

definition DEFAULT_BORROWING_PERIOD :: int where
  "DEFAULT_BORROWING_PERIOD = 14"

definition REFERENCE_BORROWING_PERIOD :: int where
  "REFERENCE_BORROWING_PERIOD = 7"

definition MAX_BOOKS_PER_USER :: int where
  "MAX_BOOKS_PER_USER = 3"

text \<open>
  \<open>FEE_POLICIES\<close>, the late fees: the fee per day late, its cap, and the days of grace.
  They are JavaScript numbers, each exactly a real.
\<close>

definition LATE_FEE_PER_DAY :: real where
  "LATE_FEE_PER_DAY = 0.5"

definition MAX_LATE_FEE :: real where
  "MAX_LATE_FEE = 50.0"

definition LATE_FEE_GRACE_PERIOD :: real where
  "LATE_FEE_GRACE_PERIOD = 1"

text \<open>One day in milliseconds.\<close>

definition day_ms :: int where
  "day_ms = 1000 * 60 * 60 * 24"

section \<open>Errors\<close>

text \<open>
  Every \<open>throw new Error(...)\<close> of the modelled methods, one constructor per throw site:
  \<^item> \<open>BookAlreadyExists\<close>: "Book with ID ... already exists." (\<open>addBook\<close>)
  \<^item> \<open>BookNotFound\<close>: "Book with ID ... not found." (\<open>removeBook\<close>, \<open>getBook\<close>)
  \<^item> \<open>BookCurrentlyBorrowed\<close>: "Cannot remove a book that is currently borrowed."
  \<^item> \<open>UserNotFound\<close>: "User with ID ... not found." (\<open>getUser\<close>)
  \<^item> \<open>BookNotAvailable\<close>: "Book is not available for borrowing."
  \<^item> \<open>BookRestricted\<close>: "Book is restricted and cannot be borrowed."
  \<^item> \<open>BorrowerNotAuthorized\<close>: "Borrower is not authorized to borrow books."
  \<^item> \<open>MaxBooksLimitReached\<close>: "Borrower has reached maximum books limit."
  \<^item> \<open>NoActiveBorrowingRecord\<close>: "No active borrowing record found for this book and
    borrower."
  \<^item> \<open>CannotBorrowLimitOrSuspended\<close>: "Cannot borrow: maximum books limit reached or
    account suspended." (\<open>Borrower.borrowBook\<close>)
  \<^item> \<open>AccountNotAuthorized\<close>: "Cannot borrow: account not authorized."
    (\<open>Borrower.borrowBook\<close>)
  \<^item> \<open>BorrowingServiceNotIntegrated\<close>: "Borrowing service not yet integrated with
    Library." (\<open>Borrower.borrowBook\<close>)
  \<^item> \<open>CannotReturnNotBorrowed\<close>: "Cannot return: book not borrowed by this user."
    (\<open>Borrower.returnBook\<close>)
  \<^item> \<open>ReturnServiceNotIntegrated\<close>: "Return service not yet integrated with Library."
    (\<open>Borrower.returnBook\<close>)
\<close>

datatype error =
    BookAlreadyExists UUID
  | BookNotFound UUID
  | BookCurrentlyBorrowed
  | UserNotFound UUID
  | BookNotAvailable
  | BookRestricted
  | BorrowerNotAuthorized
  | MaxBooksLimitReached
  | NoActiveBorrowingRecord
  | CannotBorrowLimitOrSuspended
  | AccountNotAuthorized
  | BorrowingServiceNotIntegrated
  | CannotReturnNotBorrowed
  | ReturnServiceNotIntegrated

section \<open>The account's eligibility methods (\<open>Borrower\<close>)\<close>

text \<open>
  \<open>isSuspended\<close> reads the clock (\<open>new Date()\<close>): the reading is the argument \<open>now\<close>.
  A \<open>Date\<close> object is truthy, so \<open>!this.suspensionEndDate\<close> holds exactly for \<open>null\<close>.
\<close>

definition isSuspended :: "Borrower \<Rightarrow> DateTime \<Rightarrow> bool" where
  "isSuspended b now =
     (case suspensionEndDate b of None \<Rightarrow> False | Some d \<Rightarrow> now < d)"

definition isActive :: "Borrower \<Rightarrow> DateTime \<Rightarrow> bool" where
  "isActive b now = (isActiveStatus b \<and> isAuthorized b \<and> \<not> isSuspended b now)"

text \<open>
  \<open>canBorrow\<close> is
  \<^verbatim>\<open>this.borrowedBooks.length < this.maxBooksAllowed && this.isActive && !this.isSuspended()\<close>.
  The middle conjunct is the method object \<open>this.isActive\<close>, not a call of it; a function
  object is truthy, so the conjunct is \<open>True\<close> whatever the account's state.
\<close>

definition canBorrow :: "Borrower \<Rightarrow> DateTime \<Rightarrow> bool" where
  "canBorrow b now =
     (int (length (borrowedBooks b)) < maxBooksAllowed b \<and> True \<and> \<not> isSuspended b now)"

text \<open>
  \<open>Borrower.borrowBook\<close>: the account-side path of a borrow. It validates and then
  always throws, the delegation to the library being a placeholder.
\<close>

definition borrowBook :: "Borrower \<Rightarrow> UUID \<Rightarrow> DateTime \<Rightarrow> error + BorrowingRecord" where
  "borrowBook b bid now =
     (if \<not> canBorrow b now then Inl CannotBorrowLimitOrSuspended
      else if \<not> isAuthorized b then Inl AccountNotAuthorized
      else Inl BorrowingServiceNotIntegrated)"

text \<open>
  \<open>Borrower.returnBook\<close>: the account-side path of a return. For a book among
  \<open>borrowedBooks\<close> it removes the book from that list and then throws, the delegation to
  the library being a placeholder: the account it leaves differs from the one it found.
\<close>

definition returnBook :: "Borrower \<Rightarrow> UUID \<Rightarrow> (error + unit) \<times> Borrower" where
  "returnBook b bid =
     (if bid \<notin> set (borrowedBooks b) then (Inl CannotReturnNotBorrowed, b)
      else (Inl ReturnServiceNotIntegrated,
            b\<lparr>borrowedBooks := filter (\<lambda>i. i \<noteq> bid) (borrowedBooks b)\<rparr>))"

section \<open>The circulation engine (\<open>Library\<close>)\<close>

text \<open>
  Every method takes the library and returns its result together with the library after the
  call. A \<open>throw\<close> is an \<open>Inl\<close> result; the library returned with it is the library at
  the point of the throw. \<open>uuidv4()\<close> and \<open>new Date()\<close> are inputs from the
  environment: the generated identifier and each clock reading are arguments of the
  model.
\<close>

definition addBook :: "Library \<Rightarrow> Book \<Rightarrow> (error + unit) \<times> Library" where
  "addBook s book =
     (if map_of (books s) (book_id book) \<noteq> None
      then (Inl (BookAlreadyExists (book_id book)), s)
      else (Inr (), s\<lparr>books := AList.update (book_id book) book (books s)\<rparr>))"

definition removeBook :: "Library \<Rightarrow> UUID \<Rightarrow> (error + unit) \<times> Library" where
  "removeBook s bid =
     (case map_of (books s) bid of
        None \<Rightarrow> (Inl (BookNotFound bid), s)
      | Some book \<Rightarrow>
          if \<not> isAvailable book then (Inl BookCurrentlyBorrowed, s)
          else (Inr (), s\<lparr>books := AList.delete bid (books s)\<rparr>))"

definition getBook :: "Library \<Rightarrow> UUID \<Rightarrow> error + Book" where
  "getBook s bid =
     (case map_of (books s) bid of None \<Rightarrow> Inl (BookNotFound bid) | Some book \<Rightarrow> Inr book)"

definition registerUser ::
  "Library \<Rightarrow> UserData \<Rightarrow> UUID \<Rightarrow> DateTime \<Rightarrow> DateTime \<Rightarrow> Borrower \<times> Library" where
  "registerUser s userData userId t1 t2 =
     (let borrower = new_Borrower userId (name userData) (firstname userData)
                       (email userData) (phone userData) (address userData) t1 t2
      in (borrower, s\<lparr>users := AList.update userId borrower (users s)\<rparr>))"

definition getUser :: "Library \<Rightarrow> UUID \<Rightarrow> error + Borrower" where
  "getUser s uid =
     (case map_of (users s) uid of None \<Rightarrow> Inl (UserNotFound uid) | Some user \<Rightarrow> Inr user)"

text \<open>
  \<open>calculateDueDate\<close>: \<open>setDate(getDate() + DEFAULT_BORROWING_PERIOD)\<close> moves the date by
  that many calendar days; a day is taken as 24 hours (no daylight-saving shift).
\<close>

definition calculateDueDate :: "DateTime \<Rightarrow> DateTime" where
  "calculateDueDate bdate = bdate + DEFAULT_BORROWING_PERIOD * day_ms"

text \<open>
  \<open>processBorrowing\<close>. \<open>rid\<close> is the identifier \<open>uuidv4()\<close> returns, \<open>now\<close> the clock
  reading of \<open>borrowDate\<close> and \<open>now'\<close> that of \<open>book.lastModified\<close>. The book and the
  borrower are objects held by the maps, so mutating them is storing the changed object
  under its key.
\<close>

definition processBorrowing ::
  "Library \<Rightarrow> UUID \<Rightarrow> UUID \<Rightarrow> UUID \<Rightarrow> DateTime \<Rightarrow> DateTime
     \<Rightarrow> (error + BorrowingRecord) \<times> Library" where
  "processBorrowing s bid uid rid now now' =
     (case getBook s bid of
        Inl e \<Rightarrow> (Inl e, s)
      | Inr book \<Rightarrow>
     (case getUser s uid of
        Inl e \<Rightarrow> (Inl e, s)
      | Inr borrower \<Rightarrow>
          if \<not> isAvailable book then (Inl BookNotAvailable, s)
          else if isRestricted book then (Inl BookRestricted, s)
          else if \<not> isAuthorized borrower then (Inl BorrowerNotAuthorized, s)
          else if int (length (borrowedBooks borrower)) \<ge> maxBooksAllowed borrower
            then (Inl MaxBooksLimitReached, s)
          else
            let borrowDate' = now;
                dueDate' = calculateDueDate borrowDate';
                rec = new_BorrowingRecord rid bid uid borrowDate' dueDate';
                book' = book\<lparr>isAvailable := False,
                             book_borrowingHistory := book_borrowingHistory book @ [rid],
                             lastModified := now'\<rparr>;
                borrower' = borrower\<lparr>borrowedBooks := borrowedBooks borrower @ [bid],
                  borrower_borrowingHistory := borrower_borrowingHistory borrower @ [rid]\<rparr>
            in (Inr rec,
                s\<lparr>books := AList.update bid book' (books s),
                  users := AList.update uid borrower' (users s),
                  borrowingRecords := AList.update rid rec (borrowingRecords s)\<rparr>)))"

text \<open>
  \<open>processReturn\<close>. \<open>find\<close> takes the first record, in the ledger's insertion order, of
  this book and borrower whose status is \<open>ACTIVE\<close>; the model keeps the key with the
  record, since the record found is mutated in place. \<open>now\<close> is the clock reading of
  \<open>returnDate\<close>, \<open>now'\<close> that of \<open>book.lastModified\<close>.
\<close>

definition findActiveRecord ::
  "Library \<Rightarrow> UUID \<Rightarrow> UUID \<Rightarrow> (UUID \<times> BorrowingRecord) option" where
  "findActiveRecord s bid uid =
     find (\<lambda>(k, r). bookId r = bid \<and> borrowerId r = uid \<and> status r = ACTIVE)
       (borrowingRecords s)"

definition processReturn ::
  "Library \<Rightarrow> UUID \<Rightarrow> UUID \<Rightarrow> DateTime \<Rightarrow> DateTime \<Rightarrow> (error + unit) \<times> Library" where
  "processReturn s bid uid now now' =
     (case getBook s bid of
        Inl e \<Rightarrow> (Inl e, s)
      | Inr book \<Rightarrow>
     (case getUser s uid of
        Inl e \<Rightarrow> (Inl e, s)
      | Inr borrower \<Rightarrow>
     (case findActiveRecord s bid uid of
        None \<Rightarrow> (Inl NoActiveBorrowingRecord, s)
      | Some (k, activeRecord) \<Rightarrow>
          let activeRecord' = activeRecord\<lparr>returnDate := Some now, status := RETURNED\<rparr>;
              book' = book\<lparr>isAvailable := True, lastModified := now'\<rparr>;
              borrower' = borrower\<lparr>borrowedBooks :=
                            filter (\<lambda>i. i \<noteq> bid) (borrowedBooks borrower)\<rparr>
          in (Inr (),
              s\<lparr>borrowingRecords := AList.update k activeRecord' (borrowingRecords s),
                books := AList.update bid book' (books s),
                users := AList.update uid borrower' (users s)\<rparr>))))"

text \<open>
  \<open>getOverdueBorrowings\<close>: a filter over the ledger's values in insertion order; it
  assigns nothing. \<open>now\<close> is its clock reading.
\<close>

definition getOverdueBorrowings :: "Library \<Rightarrow> DateTime \<Rightarrow> BorrowingRecord list" where
  "getOverdueBorrowings s now =
     filter (\<lambda>r. status r = ACTIVE \<and> dueDate r < now \<and> returnDate r = None)
       (map snd (borrowingRecords s))"

section \<open>Field writes by callers\<close>

text \<open>
  The fields of \<open>Borrower\<close> and \<open>Book\<close> are public. The staff methods of
  \<open>Librarian\<close> (\<open>authorizeUser\<close>, \<open>suspendUser\<close>, \<open>restrictBook\<close>,
  \<open>updatePhysicalState\<close>) only log, and the repository's tests set \<open>isAuthorized\<close>,
  \<open>isRestricted\<close> and the like by assignment on the stored object. Such an assignment on
  the object stored under a key is \<open>updateUser\<close> or \<open>updateBook\<close>; on a key that is
  absent there is no object to assign to.
\<close>

definition updateUser :: "Library \<Rightarrow> UUID \<Rightarrow> (Borrower \<Rightarrow> Borrower) \<Rightarrow> Library" where
  "updateUser s uid f =
     (case map_of (users s) uid of
        None \<Rightarrow> s
      | Some u \<Rightarrow> s\<lparr>users := AList.update uid (f u) (users s)\<rparr>)"

definition updateBook :: "Library \<Rightarrow> UUID \<Rightarrow> (Book \<Rightarrow> Book) \<Rightarrow> Library" where
  "updateBook s bid f =
     (case map_of (books s) bid of
        None \<Rightarrow> s
      | Some b \<Rightarrow> s\<lparr>books := AList.update bid (f b) (books s)\<rparr>)"

text \<open>
  The tests of the models likewise assign \<open>record.dueDate\<close> and \<open>record.status\<close> on a
  loan record; \<open>updateRecord\<close> is such an assignment on the record the ledger stores
  under a key. It is no step of the reachable states below.
\<close>

definition updateRecord ::
  "Library \<Rightarrow> UUID \<Rightarrow> (BorrowingRecord \<Rightarrow> BorrowingRecord) \<Rightarrow> Library" where
  "updateRecord s rid f =
     (case map_of (borrowingRecords s) rid of
        None \<Rightarrow> s
      | Some r \<Rightarrow> s\<lparr>borrowingRecords := AList.update rid (f r) (borrowingRecords s)\<rparr>)"

section \<open>Reachable states\<close>

text \<open>
  The states reached from a new library by the library's operations, by the account's own
  \<open>returnBook\<close> on a stored account, and by the administrative writes of
  \<open>isAuthorized\<close>, \<open>suspensionEndDate\<close>, \<open>isRestricted\<close> and \<open>physicalState\<close>.
  \<open>addBook\<close> checks nothing but the identifier, so it may be handed any book;
  \<open>reachable_with P\<close> are the states reached when every book handed to \<open>addBook\<close>
  satisfies \<open>P\<close>, and \<open>reachable\<close> puts no condition on the book. The identifier that
  \<open>uuidv4()\<close> gives a new loan record is not yet a key of the ledger. No step writes
  \<open>maxBooksAllowed\<close>; \<open>isAvailable\<close> of a stored book and the ledger are written by
  \<open>processBorrowing\<close> and \<open>processReturn\<close> only, \<open>borrowedBooks\<close> by these two and
  by \<open>returnBook\<close>.
\<close>

inductive reachable_with :: "(Book \<Rightarrow> bool) \<Rightarrow> Library \<Rightarrow> bool"
  for P :: "Book \<Rightarrow> bool" where
  r_new: "reachable_with P (new_Library lid nm addr ph em oh)"
| r_addBook: "reachable_with P s \<Longrightarrow> P book \<Longrightarrow> reachable_with P (snd (addBook s book))"
| r_removeBook: "reachable_with P s \<Longrightarrow> reachable_with P (snd (removeBook s bid))"
| r_registerUser:
    "reachable_with P s \<Longrightarrow> reachable_with P (snd (registerUser s ud uid t1 t2))"
| r_processBorrowing:
    "reachable_with P s \<Longrightarrow> map_of (borrowingRecords s) rid = None \<Longrightarrow>
     reachable_with P (snd (processBorrowing s bid uid rid now now'))"
| r_processReturn:
    "reachable_with P s \<Longrightarrow> reachable_with P (snd (processReturn s bid uid now now'))"
| r_returnBook:
    "reachable_with P s \<Longrightarrow>
     reachable_with P (updateUser s uid (\<lambda>u. snd (returnBook u bid)))"
| r_setAuthorized:
    "reachable_with P s \<Longrightarrow>
     reachable_with P (updateUser s uid (\<lambda>u. u\<lparr>isAuthorized := v\<rparr>))"
| r_setSuspensionEndDate:
    "reachable_with P s \<Longrightarrow>
     reachable_with P (updateUser s uid (\<lambda>u. u\<lparr>suspensionEndDate := d\<rparr>))"
| r_setRestricted:
    "reachable_with P s \<Longrightarrow>
     reachable_with P (updateBook s bid (\<lambda>b. b\<lparr>isRestricted := v\<rparr>))"
| r_setPhysicalState:
    "reachable_with P s \<Longrightarrow>
     reachable_with P (updateBook s bid (\<lambda>b. b\<lparr>physicalState := st\<rparr>))"

definition reachable :: "Library \<Rightarrow> bool" where
  "reachable s = reachable_with (\<lambda>book. True) s"

section \<open>Invariants\<close>

text \<open>
  A loan record is open when its status is \<open>ACTIVE\<close> or \<open>EXTENDED\<close>; a book is on loan
  when the ledger holds an open record on it. \<open>ledger_inv\<close>: the ledger's keys are
  distinct, no available catalogued book is on loan, every book on loan is catalogued, and
  no book has two open records. \<open>lent_inv\<close>: every unavailable catalogued book is on
  loan. \<open>cap_inv\<close>: no account holds more loans than its cap.
\<close>

definition isOpen :: "BorrowingRecord \<Rightarrow> bool" where
  "isOpen r = (status r = ACTIVE \<or> status r = EXTENDED)"

definition onLoan :: "Library \<Rightarrow> UUID \<Rightarrow> bool" where
  "onLoan s bid =
     (\<exists>k r. map_of (borrowingRecords s) k = Some r \<and> bookId r = bid \<and> isOpen r)"

definition ledger_inv :: "Library \<Rightarrow> bool" where
  "ledger_inv s =
     (distinct (map fst (borrowingRecords s)) \<and>
      (\<forall>bid b. map_of (books s) bid = Some b \<and> isAvailable b \<longrightarrow> \<not> onLoan s bid) \<and>
      (\<forall>bid. onLoan s bid \<longrightarrow> map_of (books s) bid \<noteq> None) \<and>
      (\<forall>k r k' r'. map_of (borrowingRecords s) k = Some r \<and>
          map_of (borrowingRecords s) k' = Some r' \<and>
          isOpen r \<and> isOpen r' \<and> bookId r = bookId r' \<longrightarrow> k = k'))"

definition lent_inv :: "Library \<Rightarrow> bool" where
  "lent_inv s =
     (\<forall>bid b. map_of (books s) bid = Some b \<and> \<not> isAvailable b \<longrightarrow> onLoan s bid)"

definition cap_inv :: "Library \<Rightarrow> bool" where
  "cap_inv s =
     (\<forall>uid u. map_of (users s) uid = Some u \<longrightarrow>
        int (length (borrowedBooks u)) \<le> maxBooksAllowed u)"

text \<open>\<open>status_inv\<close>: every loan record of the ledger is \<open>ACTIVE\<close> or \<open>RETURNED\<close>.\<close>

definition status_inv :: "Library \<Rightarrow> bool" where
  "status_inv s =
     (\<forall>(k, r) \<in> set (borrowingRecords s). status r = ACTIVE \<or> status r = RETURNED)"

section \<open>Example states\<close>

text \<open>
  A library with one catalogued book and one registered account (\<open>ex_registered\<close>), the
  same after the account is authorized (\<open>ex_ready\<close>), and after the account borrows the
  book at time 0 (\<open>ex_borrowed\<close>).
\<close>

definition ex_hours :: OpeningHours where
  "ex_hours =
     (let d = \<lparr>open_at = ''09:00'', close_at = ''18:00''\<rparr>
      in \<lparr>monday = d, tuesday = d, wednesday = d, thursday = d, friday = d,
           saturday = d, sunday = d\<rparr>)"

definition ex_library :: Library where
  "ex_library = new_Library ''library-001'' ''Paris Central Library''
     ''1 rue de la Bibliotheque'' ''+33123456789'' ''contact@library.fr'' ex_hours"

definition ex_book :: "UUID \<Rightarrow> BookCategory \<Rightarrow> Book" where
  "ex_book bid cat = new_Book bid ''Clean Code'' ''Robert C. Martin'' ''978-0132350884''
     ''Prentice Hall'' 2008 cat [] [] 0 0"

definition ex_userData :: UserData where
  "ex_userData = \<lparr>name = ''Dupont'', firstname = ''Marie'',
     email = ''marie.dupont@example.com'', phone = ''+33612345678'',
     address = ''10 rue Test''\<rparr>"

definition ex_registered :: Library where
  "ex_registered =
     snd (registerUser (snd (addBook ex_library (ex_book ''book-001'' TECHNOLOGY)))
            ex_userData ''user-001'' 0 0)"

definition ex_ready :: Library where
  "ex_ready = updateUser ex_registered ''user-001'' (\<lambda>u. u\<lparr>isAuthorized := True\<rparr>)"

definition ex_borrowed :: Library where
  "ex_borrowed = snd (processBorrowing ex_ready ''book-001'' ''user-001'' ''rec-001'' 0 0)"

text \<open>
  A library with four catalogued books and one authorized account (\<open>ex_member\<close>), and
  the states after the account's first, second and third loan (\<open>ex_loan1\<close>,
  \<open>ex_loan2\<close>, \<open>ex_full\<close>); in \<open>ex_full\<close> the account is at its cap of three.
\<close>

definition ex_shelf :: Library where
  "ex_shelf =
     snd (addBook (snd (addBook (snd (addBook (snd (addBook ex_library
       (ex_book ''book-001'' TECHNOLOGY))) (ex_book ''book-002'' FICTION)))
       (ex_book ''book-003'' REFERENCE))) (ex_book ''book-004'' SCIENCE))"

definition ex_member :: Library where
  "ex_member =
     updateUser (snd (registerUser ex_shelf ex_userData ''user-001'' 0 0)) ''user-001''
       (\<lambda>u. u\<lparr>isAuthorized := True\<rparr>)"

definition ex_loan1 :: Library where
  "ex_loan1 = snd (processBorrowing ex_member ''book-001'' ''user-001'' ''rec-001'' 0 0)"

definition ex_loan2 :: Library where
  "ex_loan2 = snd (processBorrowing ex_loan1 ''book-002'' ''user-001'' ''rec-002'' 0 0)"

definition ex_full :: Library where
  "ex_full = snd (processBorrowing ex_loan2 ''book-003'' ''user-001'' ''rec-003'' 0 0)"

text \<open>
  States reached by field writes: the authorized account suspended until day 100
  (\<open>ex_suspended\<close>; \<open>ex_suspended_account\<close> is the account object), the book
  restricted while the account is still unauthorized (\<open>ex_restricted\<close>), the book marked
  damaged (\<open>ex_damaged\<close>), and, by writes on loan records, which are no steps of the
  reachable states, the three loans of \<open>ex_full\<close> with the first due on day 20 and the
  third \<open>EXTENDED\<close> (\<open>ex_unsorted\<close>).
\<close>

definition ex_suspended :: Library where
  "ex_suspended =
     updateUser ex_ready ''user-001'' (\<lambda>u. u\<lparr>suspensionEndDate := Some (100 * day_ms)\<rparr>)"

definition ex_suspended_account :: Borrower where
  "ex_suspended_account =
     (new_Borrower ''user-001'' ''Dupont'' ''Marie'' ''marie.dupont@example.com''
        ''+33612345678'' ''10 rue Test'' 0 0)
       \<lparr>isAuthorized := True, suspensionEndDate := Some (100 * day_ms)\<rparr>"

definition ex_restricted :: Library where
  "ex_restricted = updateBook ex_registered ''book-001'' (\<lambda>b. b\<lparr>isRestricted := True\<rparr>)"

definition ex_damaged :: Library where
  "ex_damaged = updateBook ex_ready ''book-001'' (\<lambda>b. b\<lparr>physicalState := DAMAGED\<rparr>)"

definition ex_unsorted :: Library where
  "ex_unsorted =
     updateRecord
       (updateRecord ex_full ''rec-001'' (\<lambda>r. r\<lparr>dueDate := 20 * day_ms\<rparr>))
       ''rec-003'' (\<lambda>r. r\<lparr>status := EXTENDED\<rparr>)"

text \<open>
  A new library to which a book with \<open>isAvailable = false\<close> is added (\<open>ex_preset\<close>).
  The loan record that \<open>ex_borrowed\<close> holds (\<open>ex_loan\<close>), and \<open>ex_borrowed\<close> after
  three writes: the record returned on day 30, the book available and modified on day 30,
  the account's \<open>borrowedBooks\<close> empty (\<open>ex_returned\<close>).
\<close>

definition ex_preset_book :: Book where
  "ex_preset_book = (ex_book ''book-002'' FICTION)\<lparr>isAvailable := False\<rparr>"

definition ex_preset :: Library where
  "ex_preset = snd (addBook ex_library ex_preset_book)"

definition ex_loan :: BorrowingRecord where
  "ex_loan = new_BorrowingRecord ''rec-001'' ''book-001'' ''user-001'' 0 (14 * day_ms)"

definition ex_returned :: Library where
  "ex_returned =
     updateUser
       (updateBook
          (updateRecord ex_borrowed ''rec-001''
             (\<lambda>r. r\<lparr>returnDate := Some (30 * day_ms), status := RETURNED\<rparr>))
          ''book-001'' (\<lambda>b. b\<lparr>isAvailable := True, lastModified := 30 * day_ms\<rparr>))
       ''user-001'' (\<lambda>u. u\<lparr>borrowedBooks := []\<rparr>)"

section \<open>Unfolding rules\<close>

lemmas model_defs =
  new_Library_def new_Book_def new_Borrower_def new_BorrowingRecord_def
  addBook_def removeBook_def registerUser_def getBook_def getUser_def processBorrowing_def
  processReturn_def findActiveRecord_def getOverdueBorrowings_def calculateDueDate_def
  DEFAULT_BORROWING_PERIOD_def day_ms_def isSuspended_def isActive_def canBorrow_def borrowBook_def
  returnBook_def updateUser_def updateBook_def

lemmas ex_defs = ex_hours_def ex_library_def ex_book_def ex_userData_def ex_registered_def
  ex_ready_def ex_borrowed_def

lemmas ex_full_defs = ex_shelf_def ex_member_def ex_loan1_def ex_loan2_def ex_full_def

lemmas ex2_defs = updateRecord_def ex_suspended_def ex_suspended_account_def ex_restricted_def
  ex_damaged_def ex_unsorted_def

section \<open>Case analysis of the two transactions\<close>

lemma processBorrowing_cases:
  assumes "processBorrowing s bid uid rid now now' = (res, s')"
  obtains (fail) e where "res = Inl e" "s' = s"
  | (ok) book borrower where
      "map_of (books s) bid = Some book" "map_of (users s) uid = Some borrower"
      "isAvailable book" "\<not> isRestricted book" "isAuthorized borrower"
      "int (length (borrowedBooks borrower)) < maxBooksAllowed borrower"
      "res = Inr (new_BorrowingRecord rid bid uid now (calculateDueDate now))"
      "s' = s\<lparr>books := AList.update bid
                 (book\<lparr>isAvailable := False,
                       book_borrowingHistory := book_borrowingHistory book @ [rid],
                       lastModified := now'\<rparr>) (books s),
               users := AList.update uid
                 (borrower\<lparr>borrowedBooks := borrowedBooks borrower @ [bid],
                    borrower_borrowingHistory := borrower_borrowingHistory borrower @ [rid]\<rparr>)
                 (users s),
               borrowingRecords := AList.update rid
                 (new_BorrowingRecord rid bid uid now (calculateDueDate now))
                 (borrowingRecords s)\<rparr>"
  using assms
  by (auto simp: processBorrowing_def getBook_def getUser_def Let_def
      split: option.splits if_splits)

lemma processReturn_cases:
  assumes "processReturn s bid uid now now' = (res, s')"
  obtains (fail) e where "res = Inl e" "s' = s"
  | (ok) book borrower k r where
      "map_of (books s) bid = Some book" "map_of (users s) uid = Some borrower"
      "findActiveRecord s bid uid = Some (k, r)"
      "res = Inr ()"
      "s' = s\<lparr>borrowingRecords := AList.update k
                 (r\<lparr>returnDate := Some now, status := RETURNED\<rparr>) (borrowingRecords s),
               books := AList.update bid (book\<lparr>isAvailable := True, lastModified := now'\<rparr>)
                 (books s),
               users := AList.update uid
                 (borrower\<lparr>borrowedBooks := filter (\<lambda>i. i \<noteq> bid) (borrowedBooks borrower)\<rparr>)
                 (users s)\<rparr>"
  using assms
  by (auto simp: processReturn_def getBook_def getUser_def Let_def
      split: option.splits if_splits)

lemma findActiveRecord_Some:
  assumes "findActiveRecord s bid uid = Some (k, r)"
  shows "(k, r) \<in> set (borrowingRecords s) \<and> bookId r = bid \<and> borrowerId r = uid \<and> status r = ACTIVE"
  using assms unfolding findActiveRecord_def
  by (auto simp: find_Some_iff in_set_conv_nth)

lemma findActiveRecord_map_of:
  assumes "findActiveRecord s bid uid = Some (k, r)" and "distinct (map fst (borrowingRecords s))"
  shows "map_of (borrowingRecords s) k = Some r" "bookId r = bid" "borrowerId r = uid"
    "status r = ACTIVE"
  using findActiveRecord_Some [OF assms(1)] assms(2) by simp_all

section \<open>The invariants hold in every reachable state\<close>

lemma onLoan_records: "borrowingRecords s' = borrowingRecords s \<Longrightarrow> onLoan s' bid = onLoan s bid"
  by (simp add: onLoan_def)

lemma inv_new: "ledger_inv (new_Library lid nm addr ph em oh)"
  by (simp add: ledger_inv_def onLoan_def new_Library_def)

lemma lent_new: "lent_inv (new_Library lid nm addr ph em oh)"
  by (simp add: lent_inv_def new_Library_def)

lemma inv_addBook: "ledger_inv s \<Longrightarrow> ledger_inv (snd (addBook s book))"
proof (cases "map_of (books s) (book_id book) = None")
  case False
  assume "ledger_inv s"
  with False show ?thesis by (simp add: addBook_def)
next
  case True
  assume inv: "ledger_inv s"
  let ?s' = "s\<lparr>books := AList.update (book_id book) book (books s)\<rparr>"
  have ol: "\<And>b. onLoan ?s' b = onLoan s b" by (simp add: onLoan_def)
  from inv True have "\<not> onLoan s (book_id book)" by (auto simp: ledger_inv_def)
  with inv have "ledger_inv ?s'"
    unfolding ledger_inv_def ol by (auto simp del: map_of_eq_Some_iff simp add: update_conv')
  with True show ?thesis by (simp add: addBook_def)
qed

lemma lent_addBook:
  assumes "lent_inv s" and "isAvailable book"
  shows "lent_inv (snd (addBook s book))"
proof (cases "map_of (books s) (book_id book) = None")
  case False
  with assms(1) show ?thesis by (simp add: addBook_def)
next
  case True
  let ?s' = "s\<lparr>books := AList.update (book_id book) book (books s)\<rparr>"
  have ol: "\<And>b. onLoan ?s' b = onLoan s b" by (simp add: onLoan_def)
  from assms have "lent_inv ?s'"
    unfolding lent_inv_def ol by (auto simp del: map_of_eq_Some_iff simp add: update_conv')
  with True show ?thesis by (simp add: addBook_def)
qed

lemma inv_removeBook: "ledger_inv s \<Longrightarrow> ledger_inv (snd (removeBook s bid))"
proof -
  assume inv: "ledger_inv s"
  show ?thesis
  proof (cases "map_of (books s) bid")
    case None
    with inv show ?thesis by (simp add: removeBook_def)
  next
    case (Some book)
    show ?thesis
    proof (cases "isAvailable book")
      case False
      with Some inv show ?thesis by (simp add: removeBook_def)
    next
      case True
      let ?s' = "s\<lparr>books := AList.delete bid (books s)\<rparr>"
      have ol: "\<And>b. onLoan ?s' b = onLoan s b" by (simp add: onLoan_def)
      from inv Some True have "\<not> onLoan s bid" by (auto simp: ledger_inv_def)
      with inv have "ledger_inv ?s'"
        unfolding ledger_inv_def ol by (auto simp del: map_of_eq_Some_iff simp add: delete_conv')
      with Some True show ?thesis by (simp add: removeBook_def)
    qed
  qed
qed

lemma lent_removeBook: "lent_inv s \<Longrightarrow> lent_inv (snd (removeBook s bid))"
proof -
  assume lent: "lent_inv s"
  let ?s' = "s\<lparr>books := AList.delete bid (books s)\<rparr>"
  have ol: "\<And>b. onLoan ?s' b = onLoan s b" by (simp add: onLoan_def)
  from lent have "lent_inv ?s'"
    unfolding lent_inv_def ol by (auto simp del: map_of_eq_Some_iff simp add: delete_conv')
  with lent show ?thesis by (simp add: removeBook_def split: option.splits)
qed

lemma ledger_inv_fields:
  "books s' = books s \<Longrightarrow> borrowingRecords s' = borrowingRecords s \<Longrightarrow>
   ledger_inv s' = ledger_inv s"
  by (simp add: ledger_inv_def onLoan_def)

lemma inv_registerUser: "ledger_inv s \<Longrightarrow> ledger_inv (snd (registerUser s ud uid t1 t2))"
  by (subst ledger_inv_fields [of _ s]) (simp_all add: registerUser_def Let_def)

lemma lent_registerUser: "lent_inv s \<Longrightarrow> lent_inv (snd (registerUser s ud uid t1 t2))"
  by (simp add: lent_inv_def onLoan_def registerUser_def Let_def)

lemma inv_updateUser: "ledger_inv s \<Longrightarrow> ledger_inv (updateUser s uid f)"
  by (subst ledger_inv_fields [of _ s]) (simp_all add: updateUser_def split: option.splits)

lemma lent_updateUser: "lent_inv s \<Longrightarrow> lent_inv (updateUser s uid f)"
  by (simp add: lent_inv_def onLoan_def updateUser_def split: option.splits)

lemma inv_updateBook:
  assumes inv: "ledger_inv s" and f: "\<And>b. isAvailable (f b) = isAvailable b"
  shows "ledger_inv (updateBook s bid f)"
proof (cases "map_of (books s) bid")
  case None
  with inv show ?thesis by (simp add: updateBook_def)
next
  case (Some b)
  let ?s' = "s\<lparr>books := AList.update bid (f b) (books s)\<rparr>"
  have ol: "\<And>b. onLoan ?s' b = onLoan s b" by (simp add: onLoan_def)
  from inv Some f have "ledger_inv ?s'"
    unfolding ledger_inv_def ol by (auto simp del: map_of_eq_Some_iff simp add: update_conv')
  with Some show ?thesis by (simp add: updateBook_def)
qed

lemma lent_updateBook:
  assumes lent: "lent_inv s" and f: "\<And>b. isAvailable (f b) = isAvailable b"
  shows "lent_inv (updateBook s bid f)"
proof (cases "map_of (books s) bid")
  case None
  with lent show ?thesis by (simp add: updateBook_def)
next
  case (Some b)
  let ?s' = "s\<lparr>books := AList.update bid (f b) (books s)\<rparr>"
  have ol: "\<And>b. onLoan ?s' b = onLoan s b" by (simp add: onLoan_def)
  from lent Some f have "lent_inv ?s'"
    unfolding lent_inv_def ol by (auto simp del: map_of_eq_Some_iff simp add: update_conv')
  with Some show ?thesis by (simp add: updateBook_def)
qed

lemma pres_processBorrowing:
  assumes inv: "ledger_inv s" and fresh: "map_of (borrowingRecords s) rid = None"
  shows "ledger_inv (snd (processBorrowing s bid uid rid now now')) \<and>
         (lent_inv s \<longrightarrow> lent_inv (snd (processBorrowing s bid uid rid now now')))"
proof -
  obtain res s' where eq: "processBorrowing s bid uid rid now now' = (res, s')"
    by (cases "processBorrowing s bid uid rid now now'")
  from eq show ?thesis
  proof (cases rule: processBorrowing_cases)
    case (fail e)
    with inv eq show ?thesis by simp
  next
    case (ok book borrower)
    let ?rec = "new_BorrowingRecord rid bid uid now (calculateDueDate now)"
    have recs: "map_of (borrowingRecords s') = (map_of (borrowingRecords s))(rid \<mapsto> ?rec)"
      by (simp add: ok(8) update_conv')
    have bks: "map_of (books s') = (map_of (books s))(bid \<mapsto>
                 book\<lparr>isAvailable := False,
                       book_borrowingHistory := book_borrowingHistory book @ [rid],
                       lastModified := now'\<rparr>)"
      by (simp add: ok(8) update_conv')
    have op: "isOpen ?rec" "bookId ?rec = bid"
      by (simp_all add: isOpen_def new_BorrowingRecord_def)
    from inv ok(1,3) have nol: "\<not> onLoan s bid" by (auto simp: ledger_inv_def)
    have ol: "onLoan s' b = (b = bid \<or> onLoan s b)" for b
    proof
      assume "onLoan s' b"
      then obtain k r where kr: "map_of (borrowingRecords s') k = Some r" "bookId r = b" "isOpen r"
        by (auto simp: onLoan_def)
      show "b = bid \<or> onLoan s b"
      proof (cases "k = rid")
        case True
        with kr(1) recs have "r = ?rec" by simp
        with kr(2) op(2) show ?thesis by simp
      next
        case False
        with kr(1) recs have "map_of (borrowingRecords s) k = Some r" by simp
        with kr(2,3) show ?thesis by (auto simp: onLoan_def)
      qed
    next
      assume "b = bid \<or> onLoan s b"
      then show "onLoan s' b"
      proof
        assume "b = bid"
        moreover have "map_of (borrowingRecords s') rid = Some ?rec" by (simp add: recs)
        ultimately show ?thesis using op unfolding onLoan_def by blast
      next
        assume "onLoan s b"
        then obtain k r where kr: "map_of (borrowingRecords s) k = Some r" "bookId r = b" "isOpen r"
          by (auto simp: onLoan_def)
        with fresh have "k \<noteq> rid" by auto
        with kr(1) have "map_of (borrowingRecords s') k = Some r" by (simp add: recs)
        with kr(2,3) show ?thesis unfolding onLoan_def by blast
      qed
    qed
    have d: "distinct (map fst (borrowingRecords s'))"
      using inv by (simp add: ok(8) ledger_inv_def distinct_update)
    have a: "\<forall>b bk. map_of (books s') b = Some bk \<and> isAvailable bk \<longrightarrow> \<not> onLoan s' b"
      using inv unfolding bks ol by (auto simp: ledger_inv_def)
    have l: "lent_inv s'" if "lent_inv s"
      using that unfolding lent_inv_def bks ol by auto
    have c: "\<forall>b. onLoan s' b \<longrightarrow> map_of (books s') b \<noteq> None"
      using inv unfolding bks ol by (auto simp: ledger_inv_def)
    have u: "\<forall>k r k' r'. map_of (borrowingRecords s') k = Some r \<and>
          map_of (borrowingRecords s') k' = Some r' \<and>
          isOpen r \<and> isOpen r' \<and> bookId r = bookId r' \<longrightarrow> k = k'"
    proof (intro allI impI, elim conjE)
      fix k r k' r'
      assume h: "map_of (borrowingRecords s') k = Some r" "map_of (borrowingRecords s') k' = Some r'"
        "isOpen r" "isOpen r'" "bookId r = bookId r'"
      show "k = k'"
      proof (cases "k = rid")
        case True
        with h(1) recs have r: "r = ?rec" by simp
        show ?thesis
        proof (rule ccontr)
          assume "k \<noteq> k'"
          with True h(2) recs have "map_of (borrowingRecords s) k' = Some r'" by (simp split: if_splits)
          with h(4,5) r op(2) have "onLoan s bid" by (auto simp: onLoan_def)
          with nol show False ..
        qed
      next
        case False
        with h(1) recs have k: "map_of (borrowingRecords s) k = Some r" by simp
        show ?thesis
        proof (cases "k' = rid")
          case True
          with h(2) recs have "r' = ?rec" by simp
          with k h(3,5) op(2) have "onLoan s bid" by (auto simp: onLoan_def)
          with nol show ?thesis ..
        next
          case False
          with h(2) recs have "map_of (borrowingRecords s) k' = Some r'" by simp
          with k h(3,4,5) inv show ?thesis unfolding ledger_inv_def by blast
        qed
      qed
    qed
    from d a c u have "ledger_inv s'" unfolding ledger_inv_def by blast
    with l eq show ?thesis by simp
  qed
qed

lemma pres_processReturn:
  assumes inv: "ledger_inv s"
  shows "ledger_inv (snd (processReturn s bid uid now now')) \<and>
         (lent_inv s \<longrightarrow> lent_inv (snd (processReturn s bid uid now now')))"
proof -
  obtain res s' where eq: "processReturn s bid uid now now' = (res, s')"
    by (cases "processReturn s bid uid now now'")
  from eq show ?thesis
  proof (cases rule: processReturn_cases)
    case (fail e)
    with inv eq show ?thesis by simp
  next
    case (ok book borrower k r)
    from inv have d0: "distinct (map fst (borrowingRecords s))" by (simp add: ledger_inv_def)
    note fr = findActiveRecord_map_of [OF ok(3) d0]
    let ?r' = "r\<lparr>returnDate := Some now, status := RETURNED\<rparr>"
    have recs: "map_of (borrowingRecords s') = (map_of (borrowingRecords s))(k \<mapsto> ?r')"
      by (simp add: ok(5) update_conv')
    have bks: "map_of (books s') = (map_of (books s))(bid \<mapsto>
                 book\<lparr>isAvailable := True, lastModified := now'\<rparr>)"
      by (simp add: ok(5) update_conv')
    have cl: "\<not> isOpen ?r'" by (simp add: isOpen_def)
    have opr: "isOpen r" using fr(4) by (simp add: isOpen_def)
    from inv have uq: "\<And>k1 r1 k2 r2. map_of (borrowingRecords s) k1 = Some r1 \<Longrightarrow>
          map_of (borrowingRecords s) k2 = Some r2 \<Longrightarrow> isOpen r1 \<Longrightarrow> isOpen r2 \<Longrightarrow>
          bookId r1 = bookId r2 \<Longrightarrow> k1 = k2"
      unfolding ledger_inv_def by blast
    have sub: "map_of (borrowingRecords s) k1 = Some r1"
      if "map_of (borrowingRecords s') k1 = Some r1" "isOpen r1" for k1 r1
    proof (cases "k1 = k")
      case True
      with that(1) recs have "r1 = ?r'" by simp
      with that(2) cl show ?thesis by simp
    next
      case False
      with that(1) recs show ?thesis by simp
    qed
    have ol: "onLoan s' b = (b \<noteq> bid \<and> onLoan s b)" for b
    proof
      assume "onLoan s' b"
      then obtain k1 r1 where kr: "map_of (borrowingRecords s') k1 = Some r1" "bookId r1 = b" "isOpen r1"
        by (auto simp: onLoan_def)
      from sub [OF kr(1,3)] have k1: "map_of (borrowingRecords s) k1 = Some r1" .
      have "k1 \<noteq> k" using kr(1,3) recs cl by auto
      with uq [OF k1 fr(1) kr(3) opr] have "bookId r1 \<noteq> bookId r" by blast
      with kr(2) fr(2) have "b \<noteq> bid" by simp
      moreover from k1 kr(2,3) have "onLoan s b" by (auto simp: onLoan_def)
      ultimately show "b \<noteq> bid \<and> onLoan s b" ..
    next
      assume h: "b \<noteq> bid \<and> onLoan s b"
      then obtain k1 r1 where kr: "map_of (borrowingRecords s) k1 = Some r1" "bookId r1 = b" "isOpen r1"
        by (auto simp: onLoan_def)
      from h kr(2) fr(1,2) kr(1) have "k1 \<noteq> k" by auto
      with kr(1) have "map_of (borrowingRecords s') k1 = Some r1" by (simp add: recs)
      with kr(2,3) show "onLoan s' b" unfolding onLoan_def by blast
    qed
    have d: "distinct (map fst (borrowingRecords s'))"
      using d0 by (simp add: ok(5) distinct_update)
    have a: "\<forall>b bk. map_of (books s') b = Some bk \<and> isAvailable bk \<longrightarrow> \<not> onLoan s' b"
      using inv unfolding bks ol by (auto simp: ledger_inv_def)
    have l: "lent_inv s'" if "lent_inv s"
      using that unfolding lent_inv_def bks ol by auto
    have c: "\<forall>b. onLoan s' b \<longrightarrow> map_of (books s') b \<noteq> None"
      using inv unfolding bks ol by (auto simp: ledger_inv_def)
    have u: "\<forall>k1 r1 k2 r2. map_of (borrowingRecords s') k1 = Some r1 \<and>
          map_of (borrowingRecords s') k2 = Some r2 \<and>
          isOpen r1 \<and> isOpen r2 \<and> bookId r1 = bookId r2 \<longrightarrow> k1 = k2"
      using sub uq by blast
    from d a c u have "ledger_inv s'" unfolding ledger_inv_def by blast
    with l eq show ?thesis by simp
  qed
qed

lemma reachable_with_ledger_inv: "reachable_with P s \<Longrightarrow> ledger_inv s"
proof (induction rule: reachable_with.induct)
  case r_new show ?case by (rule inv_new)
next
  case r_addBook then show ?case by (simp add: inv_addBook)
next
  case r_removeBook then show ?case by (simp add: inv_removeBook)
next
  case r_registerUser then show ?case by (simp add: inv_registerUser)
next
  case r_processBorrowing then show ?case by (simp add: pres_processBorrowing)
next
  case r_processReturn then show ?case by (simp add: pres_processReturn)
next
  case r_returnBook then show ?case by (simp add: inv_updateUser)
next
  case r_setAuthorized then show ?case by (simp add: inv_updateUser)
next
  case r_setSuspensionEndDate then show ?case by (simp add: inv_updateUser)
next
  case r_setRestricted then show ?case by (simp add: inv_updateBook)
next
  case r_setPhysicalState then show ?case by (simp add: inv_updateBook)
qed

lemma reachable_with_lent_inv: "reachable_with isAvailable s \<Longrightarrow> lent_inv s"
proof (induction rule: reachable_with.induct)
  case r_new show ?case by (rule lent_new)
next
  case r_addBook then show ?case by (simp add: lent_addBook)
next
  case r_removeBook then show ?case by (simp add: lent_removeBook)
next
  case r_registerUser then show ?case by (simp add: lent_registerUser)
next
  case (r_processBorrowing s rid bid uid now now')
  from r_processBorrowing(1) have "ledger_inv s" by (rule reachable_with_ledger_inv)
  from pres_processBorrowing [OF this r_processBorrowing(2)] r_processBorrowing(3)
  show ?case by blast
next
  case (r_processReturn s bid uid now now')
  from r_processReturn(1) have "ledger_inv s" by (rule reachable_with_ledger_inv)
  from pres_processReturn [OF this] r_processReturn(2) show ?case by blast
next
  case r_returnBook then show ?case by (simp add: lent_updateUser)
next
  case r_setAuthorized then show ?case by (simp add: lent_updateUser)
next
  case r_setSuspensionEndDate then show ?case by (simp add: lent_updateUser)
next
  case r_setRestricted then show ?case by (simp add: lent_updateBook)
next
  case r_setPhysicalState then show ?case by (simp add: lent_updateBook)
qed

lemma reachable_with_reachable: "reachable_with P s \<Longrightarrow> reachable s"
  unfolding reachable_def
  by (induction rule: reachable_with.induct) (auto intro: reachable_with.intros)

lemma reachable_ledger_inv: "reachable s \<Longrightarrow> ledger_inv s"
  unfolding reachable_def by (rule reachable_with_ledger_inv)

lemma cap_updateUser:
  assumes "cap_inv s"
    and "\<And>u. length (borrowedBooks (f u)) \<le> length (borrowedBooks u) \<and>
              maxBooksAllowed (f u) = maxBooksAllowed u"
  shows "cap_inv (updateUser s uid f)"
proof (cases "map_of (users s) uid")
  case None
  with assms(1) show ?thesis by (simp add: updateUser_def)
next
  case (Some u)
  from assms(2) [of u] have "int (length (borrowedBooks (f u))) \<le> int (length (borrowedBooks u))"
    and m: "maxBooksAllowed (f u) = maxBooksAllowed u" by simp_all
  moreover from assms(1) Some have "int (length (borrowedBooks u)) \<le> maxBooksAllowed u"
    by (simp add: cap_inv_def)
  ultimately have "int (length (borrowedBooks (f u))) \<le> maxBooksAllowed (f u)" by linarith
  with assms(1) have "cap_inv (s\<lparr>users := AList.update uid (f u) (users s)\<rparr>)"
    unfolding cap_inv_def
    by (auto simp del: map_of_eq_Some_iff simp add: update_conv' split: if_splits)
  with Some show ?thesis by (simp add: updateUser_def)
qed

lemma cap_processBorrowing:
  assumes "cap_inv s"
  shows "cap_inv (snd (processBorrowing s bid uid rid now now'))"
proof -
  obtain res s' where eq: "processBorrowing s bid uid rid now now' = (res, s')"
    by (cases "processBorrowing s bid uid rid now now'")
  from eq show ?thesis
  proof (cases rule: processBorrowing_cases)
    case (fail e)
    with assms eq show ?thesis by simp
  next
    case (ok book borrower)
    have "cap_inv s'"
      using assms ok(2,6) unfolding cap_inv_def ok(8)
      by (auto simp del: map_of_eq_Some_iff simp add: update_conv' split: if_splits)
    with eq show ?thesis by simp
  qed
qed

lemma cap_processReturn:
  assumes "cap_inv s"
  shows "cap_inv (snd (processReturn s bid uid now now'))"
proof -
  obtain res s' where eq: "processReturn s bid uid now now' = (res, s')"
    by (cases "processReturn s bid uid now now'")
  from eq show ?thesis
  proof (cases rule: processReturn_cases)
    case (fail e)
    with assms eq show ?thesis by simp
  next
    case (ok book borrower k r)
    have le: "int (length (filter (\<lambda>i. i \<noteq> bid) (borrowedBooks borrower)))
                \<le> int (length (borrowedBooks borrower))"
      by simp
    from assms ok(2) have "int (length (borrowedBooks borrower)) \<le> maxBooksAllowed borrower"
      by (simp add: cap_inv_def)
    with le have "int (length (filter (\<lambda>i. i \<noteq> bid) (borrowedBooks borrower)))
                \<le> maxBooksAllowed borrower" by linarith
    then have "cap_inv s'"
      using assms unfolding cap_inv_def ok(5)
      by (auto simp del: map_of_eq_Some_iff simp add: update_conv' split: if_splits)
    with eq show ?thesis by simp
  qed
qed

lemma cap_registerUser: "cap_inv s \<Longrightarrow> cap_inv (snd (registerUser s ud uid t1 t2))"
  unfolding cap_inv_def registerUser_def
  by (auto simp del: map_of_eq_Some_iff simp add: update_conv' Let_def new_Borrower_def
      split: if_splits)

lemma reachable_with_cap_inv: "reachable_with P s \<Longrightarrow> cap_inv s"
proof (induction rule: reachable_with.induct)
  case r_new show ?case by (simp add: cap_inv_def new_Library_def)
next
  case (r_addBook s book) then show ?case
    by (simp add: cap_inv_def addBook_def)
next
  case (r_removeBook s bid) then show ?case
    by (simp add: cap_inv_def removeBook_def split: option.splits)
next
  case r_registerUser then show ?case by (simp add: cap_registerUser)
next
  case r_processBorrowing then show ?case by (simp add: cap_processBorrowing)
next
  case r_processReturn then show ?case by (simp add: cap_processReturn)
next
  case r_returnBook then show ?case by (simp add: cap_updateUser returnBook_def)
next
  case r_setAuthorized then show ?case by (simp add: cap_updateUser)
next
  case r_setSuspensionEndDate then show ?case by (simp add: cap_updateUser)
next
  case (r_setRestricted s bid v) then show ?case
    by (simp add: cap_inv_def updateBook_def split: option.splits)
next
  case (r_setPhysicalState s bid st) then show ?case
    by (simp add: cap_inv_def updateBook_def split: option.splits)
qed

lemma reachable_cap_inv: "reachable s \<Longrightarrow> cap_inv s"
  unfolding reachable_def by (rule reachable_with_cap_inv)

section \<open>The example states are reachable\<close>

lemma available_ex_registered: "reachable_with isAvailable ex_registered"
  unfolding ex_registered_def ex_library_def
  by (intro reachable_with.intros) (simp add: ex_book_def new_Book_def)

lemma available_ex_ready: "reachable_with isAvailable ex_ready"
  unfolding ex_ready_def by (intro reachable_with.intros available_ex_registered)

lemma available_ex_borrowed: "reachable_with isAvailable ex_borrowed"
  unfolding ex_borrowed_def
  by (rule r_processBorrowing [OF available_ex_ready]) (simp add: ex_defs model_defs Let_def)

lemma available_ex_member: "reachable_with isAvailable ex_member"
  unfolding ex_member_def ex_shelf_def ex_library_def
  by (intro reachable_with.intros) (simp_all add: ex_book_def new_Book_def)

lemma available_ex_loan1: "reachable_with isAvailable ex_loan1"
  unfolding ex_loan1_def
  by (rule r_processBorrowing [OF available_ex_member])
     (simp add: ex_full_defs ex_defs model_defs Let_def)

lemma available_ex_loan2: "reachable_with isAvailable ex_loan2"
  unfolding ex_loan2_def
  by (rule r_processBorrowing [OF available_ex_loan1])
     (simp add: ex_full_defs ex_defs model_defs Let_def)

lemma available_ex_full: "reachable_with isAvailable ex_full"
  unfolding ex_full_def
  by (rule r_processBorrowing [OF available_ex_loan2])
     (simp add: ex_full_defs ex_defs model_defs Let_def)

lemma reachable_ex_registered: "reachable ex_registered"
  by (rule reachable_with_reachable [OF available_ex_registered])

lemma reachable_ex_ready: "reachable ex_ready"
  by (rule reachable_with_reachable [OF available_ex_ready])

lemma reachable_ex_borrowed: "reachable ex_borrowed"
  by (rule reachable_with_reachable [OF available_ex_borrowed])

lemma reachable_ex_member: "reachable ex_member"
  by (rule reachable_with_reachable [OF available_ex_member])

lemma reachable_ex_full: "reachable ex_full"
  by (rule reachable_with_reachable [OF available_ex_full])

lemma reachable_ex_suspended: "reachable ex_suspended"
  unfolding ex_suspended_def reachable_def
  by (intro reachable_with.intros reachable_ex_ready [unfolded reachable_def])

lemma reachable_ex_damaged: "reachable ex_damaged"
  unfolding ex_damaged_def reachable_def
  by (intro reachable_with.intros reachable_ex_ready [unfolded reachable_def])

lemma reachable_ex_restricted: "reachable ex_restricted"
  unfolding ex_restricted_def reachable_def
  by (intro reachable_with.intros reachable_ex_registered [unfolded reachable_def])

lemma reachable_ex_preset: "reachable ex_preset"
  unfolding ex_preset_def ex_library_def reachable_def
  by (intro reachable_with.intros) simp

section \<open>Availability and open loans\<close>

text \<open>
  C2 as stated fails: \<open>addBook\<close> stores the book it is handed whatever its
  \<open>isAvailable\<close>. After a book with \<open>isAvailable = false\<close> is added to the new library,
  the state is reachable, the catalogued book is unavailable, and the ledger is empty.
\<close>

theorem unavailable_book_without_loan:
  "reachable ex_preset \<and>
   map_of (books ex_preset) ''book-002'' = Some ex_preset_book \<and>
   isAvailable ex_preset_book = False \<and>
   borrowingRecords ex_preset = []"
proof -
  have "map_of (books ex_preset) ''book-002'' = Some ex_preset_book \<and>
   isAvailable ex_preset_book = False \<and>
   borrowingRecords ex_preset = []"
    by (simp add: ex_preset_def ex_preset_book_def ex_defs model_defs)
  with reachable_ex_preset show ?thesis by blast
qed

text \<open>
  C2, amended. In every reachable state, a catalogued book on which the ledger holds a
  loan record with status \<open>ACTIVE\<close> or \<open>EXTENDED\<close> has \<open>isAvailable = false\<close>. In
  every state reached when each book handed to \<open>addBook\<close> is available, as the book's
  constructor leaves it, the converse holds too: a catalogued book has
  \<open>isAvailable = false\<close> if and only if the ledger holds such a record on it.
\<close>

theorem availability_and_open_loan:
  assumes "map_of (books s) bid = Some b"
  shows "(reachable s \<longrightarrow>
            ((\<exists>(k, r) \<in> set (borrowingRecords s).
                bookId r = bid \<and> (status r = ACTIVE \<or> status r = EXTENDED)) \<longrightarrow>
             isAvailable b = False)) \<and>
         (reachable_with isAvailable s \<longrightarrow>
            (isAvailable b = False) =
            (\<exists>(k, r) \<in> set (borrowingRecords s).
                bookId r = bid \<and> (status r = ACTIVE \<or> status r = EXTENDED)))"
proof -
  have ol: "onLoan s bid = (\<exists>(k, r) \<in> set (borrowingRecords s).
            bookId r = bid \<and> (status r = ACTIVE \<or> status r = EXTENDED))"
    if "ledger_inv s"
  proof -
    from that have "distinct (map fst (borrowingRecords s))" by (simp add: ledger_inv_def)
    then show ?thesis by (auto simp: onLoan_def isOpen_def)
  qed
  have one: "isAvailable b = False" if "ledger_inv s" and "onLoan s bid"
    using that assms by (auto simp: ledger_inv_def)
  have a: "(\<exists>(k, r) \<in> set (borrowingRecords s).
                bookId r = bid \<and> (status r = ACTIVE \<or> status r = EXTENDED)) \<longrightarrow>
             isAvailable b = False" if "reachable s"
  proof -
    from that have inv: "ledger_inv s" by (rule reachable_ledger_inv)
    from one [OF inv] ol [OF inv] show ?thesis by blast
  qed
  have b: "(isAvailable b = False) =
            (\<exists>(k, r) \<in> set (borrowingRecords s).
                bookId r = bid \<and> (status r = ACTIVE \<or> status r = EXTENDED))"
    if "reachable_with isAvailable s"
  proof -
    from that have inv: "ledger_inv s" by (rule reachable_with_ledger_inv)
    from that have "lent_inv s" by (rule reachable_with_lent_inv)
    with assms have "isAvailable b = False \<Longrightarrow> onLoan s bid" by (auto simp: lent_inv_def)
    with one [OF inv] have "(isAvailable b = False) = onLoan s bid" by blast
    with ol [OF inv] show ?thesis by simp
  qed
  from a b show ?thesis by blast
qed

text \<open>
  Witness for C2: \<open>ex_borrowed\<close> is reached with available books only; there the book is
  unavailable and the ledger holds its active loan.
\<close>

theorem availability_and_open_loan_witness:
  "reachable_with isAvailable ex_borrowed \<and> reachable ex_borrowed \<and>
   (\<exists>b. map_of (books ex_borrowed) ''book-001'' = Some b \<and> isAvailable b = False \<and>
     (\<exists>(k, r) \<in> set (borrowingRecords ex_borrowed).
        bookId r = ''book-001'' \<and> (status r = ACTIVE \<or> status r = EXTENDED)))"
proof -
  obtain b where b: "map_of (books ex_borrowed) ''book-001'' = Some b" "isAvailable b = False"
    by (simp add: ex_defs model_defs Let_def)
  from availability_and_open_loan [OF b(1)] b available_ex_borrowed reachable_ex_borrowed
  show ?thesis by blast
qed

section \<open>The loan cap\<close>

text \<open>
  C8. In every reachable state, every account holds at most \<open>maxBooksAllowed\<close> loans. A
  borrow by an account that already holds \<open>maxBooksAllowed\<close> loans fails and leaves
  the library, and so all of that account's loans, as it was; the failure is the limit
  error whenever the checks that precede the cap check pass (the book is catalogued,
  available and unrestricted, the account authorized).
\<close>

theorem loan_cap:
  assumes "reachable s" and "map_of (users s) uid = Some u"
  shows "int (length (borrowedBooks u)) \<le> maxBooksAllowed u \<and>
         (int (length (borrowedBooks u)) = maxBooksAllowed u \<longrightarrow>
            (\<exists>e. processBorrowing s bid uid rid now now' = (Inl e, s)) \<and>
            ((\<exists>b. map_of (books s) bid = Some b \<and> isAvailable b \<and> \<not> isRestricted b) \<and>
                isAuthorized u \<longrightarrow>
             processBorrowing s bid uid rid now now' = (Inl MaxBooksLimitReached, s)))"
proof -
  from assms have "int (length (borrowedBooks u)) \<le> maxBooksAllowed u"
    using reachable_cap_inv [OF assms(1)] by (simp add: cap_inv_def)
  moreover have "\<exists>e. processBorrowing s bid uid rid now now' = (Inl e, s)"
    if "int (length (borrowedBooks u)) = maxBooksAllowed u"
    using that assms(2)
    by (simp add: processBorrowing_def getBook_def getUser_def split: option.splits)
  moreover have "processBorrowing s bid uid rid now now' = (Inl MaxBooksLimitReached, s)"
    if "int (length (borrowedBooks u)) = maxBooksAllowed u"
      and "\<exists>b. map_of (books s) bid = Some b \<and> isAvailable b \<and> \<not> isRestricted b"
      and "isAuthorized u"
    using that assms(2)
    by (auto simp: processBorrowing_def getBook_def getUser_def)
  ultimately show ?thesis by blast
qed

text \<open>
  Witness for C8: in \<open>ex_full\<close> the account holds three loans, its cap; borrowing the
  fourth book fails with the limit error and leaves \<open>ex_full\<close> as it was.
\<close>

theorem loan_cap_witness:
  "reachable ex_full \<and>
   (\<exists>u. map_of (users ex_full) ''user-001'' = Some u \<and>
        int (length (borrowedBooks u)) = 3 \<and> maxBooksAllowed u = 3 \<and>
        processBorrowing ex_full ''book-004'' ''user-001'' ''rec-004'' day_ms day_ms
          = (Inl MaxBooksLimitReached, ex_full))"
proof -
  obtain u where u: "map_of (users ex_full) ''user-001'' = Some u"
      "int (length (borrowedBooks u)) = 3" "maxBooksAllowed u = 3" "isAuthorized u"
    by (simp add: ex_full_defs ex_defs model_defs Let_def)
  have b: "\<exists>b. map_of (books ex_full) ''book-004'' = Some b \<and> isAvailable b \<and> \<not> isRestricted b"
    by (simp add: ex_full_defs ex_defs model_defs Let_def)
  from loan_cap [OF reachable_ex_full u(1), of "''book-004''" "''rec-004''" day_ms day_ms] u b
  have "processBorrowing ex_full ''book-004'' ''user-001'' ''rec-004'' day_ms day_ms
          = (Inl MaxBooksLimitReached, ex_full)" by simp
  with u reachable_ex_full show ?thesis by blast
qed

section \<open>Borrow, then return\<close>

lemma find_unique:
  assumes "x \<in> set xs" and "P x" and "\<forall>y\<in>set xs. P y \<longrightarrow> y = x"
  shows "find P xs = Some x"
  using assms
proof (induction xs)
  case Nil
  then show ?case by simp
next
  case (Cons a xs)
  show ?case
  proof (cases "P a")
    case True
    with Cons.prems(3) have "a = x" by simp
    with True show ?thesis by simp
  next
    case False
    with Cons.prems(1,2) have "x \<in> set xs" by auto
    moreover from Cons.prems(3) have "\<forall>y\<in>set xs. P y \<longrightarrow> y = x" by simp
    ultimately have "find P xs = Some x" using Cons.IH Cons.prems(2) by blast
    with False show ?thesis by simp
  qed
qed

text \<open>
  C9. In a reachable state where \<open>processBorrowing\<close> of book \<open>bid\<close> by account
  \<open>uid\<close> succeeds, the following \<open>processReturn\<close> of the same pair succeeds; after it
  the book is available again, the book is no longer among the account's borrowed books,
  and the loan record created by the borrow has status \<open>RETURNED\<close> and its
  \<open>returnDate\<close> set to the time of the return.
\<close>

theorem borrow_then_return:
  assumes reach: "reachable s"
    and borrow: "processBorrowing s bid uid rid t1 t1' = (Inr rec, s1)"
  shows "\<exists>s2. processReturn s1 bid uid t2 t2' = (Inr (), s2) \<and>
           (\<exists>b. map_of (books s2) bid = Some b \<and> isAvailable b = True) \<and>
           (\<exists>u. map_of (users s2) uid = Some u \<and> bid \<notin> set (borrowedBooks u)) \<and>
           map_of (borrowingRecords s2) rid =
             Some (rec\<lparr>returnDate := Some t2, status := RETURNED\<rparr>)"
proof -
  from reach have inv: "ledger_inv s" by (rule reachable_ledger_inv)
  then have d0: "distinct (map fst (borrowingRecords s))" by (simp add: ledger_inv_def)
  from borrow show ?thesis
  proof (cases rule: processBorrowing_cases)
    case (fail e)
    then show ?thesis by simp
  next
    case (ok book borrower)
    let ?book1 = "book\<lparr>isAvailable := False,
                       book_borrowingHistory := book_borrowingHistory book @ [rid],
                       lastModified := t1'\<rparr>"
    let ?borrower1 = "borrower\<lparr>borrowedBooks := borrowedBooks borrower @ [bid],
                    borrower_borrowingHistory := borrower_borrowingHistory borrower @ [rid]\<rparr>"
    from ok(7) have rec: "rec = new_BorrowingRecord rid bid uid t1 (calculateDueDate t1)" by simp
    have bk1: "map_of (books s1) bid = Some ?book1" by (simp add: ok(8) update_conv')
    have us1: "map_of (users s1) uid = Some ?borrower1" by (simp add: ok(8) update_conv')
    have recs1: "borrowingRecords s1 = AList.update rid rec (borrowingRecords s)"
      by (simp add: ok(8) rec)
    have d1: "distinct (map fst (borrowingRecords s1))"
      using d0 by (simp add: recs1 distinct_update)
    have m1: "map_of (borrowingRecords s1) = (map_of (borrowingRecords s))(rid \<mapsto> rec)"
      by (simp add: recs1 update_conv')
    from inv ok(1,3) have nol: "\<not> onLoan s bid" by (auto simp: ledger_inv_def)
    let ?P = "\<lambda>(k, r). bookId r = bid \<and> borrowerId r = uid \<and> status r = ACTIVE"
    have "map_of (borrowingRecords s1) rid = Some rec" by (simp add: m1)
    then have mem: "(rid, rec) \<in> set (borrowingRecords s1)" by (rule map_of_SomeD)
    have P: "?P (rid, rec)" by (simp add: rec new_BorrowingRecord_def)
    have uniq: "\<forall>y\<in>set (borrowingRecords s1). ?P y \<longrightarrow> y = (rid, rec)"
    proof (intro ballI impI)
      fix y assume y: "y \<in> set (borrowingRecords s1)" "?P y"
      obtain k r where kr: "y = (k, r)" by (cases y)
      with y(1) d1 have l1: "map_of (borrowingRecords s1) k = Some r" by simp
      show "y = (rid, rec)"
      proof (cases "k = rid")
        case True
        with l1 m1 kr show ?thesis by simp
      next
        case False
        with l1 m1 have "map_of (borrowingRecords s) k = Some r" by simp
        with y(2) kr have "onLoan s bid" by (auto simp: onLoan_def isOpen_def)
        with nol show ?thesis ..
      qed
    qed
    have fnd: "findActiveRecord s1 bid uid = Some (rid, rec)"
      unfolding findActiveRecord_def by (rule find_unique [OF mem P uniq])
    let ?s2 = "s1\<lparr>borrowingRecords := AList.update rid
                 (rec\<lparr>returnDate := Some t2, status := RETURNED\<rparr>) (borrowingRecords s1),
               books := AList.update bid (?book1\<lparr>isAvailable := True, lastModified := t2'\<rparr>)
                 (books s1),
               users := AList.update uid
                 (?borrower1\<lparr>borrowedBooks := filter (\<lambda>i. i \<noteq> bid) (borrowedBooks ?borrower1)\<rparr>)
                 (users s1)\<rparr>"
    have ret: "processReturn s1 bid uid t2 t2' = (Inr (), ?s2)"
      by (simp add: processReturn_def getBook_def getUser_def bk1 us1 fnd Let_def)
    have a: "\<exists>b. map_of (books ?s2) bid = Some b \<and> isAvailable b = True"
      by (simp add: update_conv')
    have b: "\<exists>u. map_of (users ?s2) uid = Some u \<and> bid \<notin> set (borrowedBooks u)"
      by (simp add: update_conv')
    have c: "map_of (borrowingRecords ?s2) rid =
             Some (rec\<lparr>returnDate := Some t2, status := RETURNED\<rparr>)"
      by (simp add: update_conv')
    show ?thesis
      by (rule exI [of _ ?s2], intro conjI) (rule ret, rule a, rule b, rule c)
  qed
qed

text \<open>
  Witness for C9: the account of \<open>ex_ready\<close> borrows the book at time 0 and returns it a
  day later.
\<close>

theorem borrow_then_return_witness:
  "reachable ex_ready \<and>
   (\<exists>rec. processBorrowing ex_ready ''book-001'' ''user-001'' ''rec-001'' 0 0
            = (Inr rec, ex_borrowed) \<and>
     (\<exists>s2. processReturn ex_borrowed ''book-001'' ''user-001'' day_ms day_ms = (Inr (), s2) \<and>
           (\<exists>b. map_of (books s2) ''book-001'' = Some b \<and> isAvailable b = True) \<and>
           (\<exists>u. map_of (users s2) ''user-001'' = Some u \<and> ''book-001'' \<notin> set (borrowedBooks u)) \<and>
           map_of (borrowingRecords s2) ''rec-001'' =
             Some (rec\<lparr>returnDate := Some day_ms, status := RETURNED\<rparr>)))"
proof -
  obtain rec where b: "processBorrowing ex_ready ''book-001'' ''user-001'' ''rec-001'' 0 0
            = (Inr rec, ex_borrowed)"
    unfolding ex_borrowed_def by (simp add: ex_defs model_defs Let_def)
  from borrow_then_return [OF reachable_ex_ready b, of day_ms day_ms] b reachable_ex_ready
  show ?thesis by blast
qed

section \<open>Loan statuses in reachable states\<close>

lemma set_update_cases:
  "x \<in> set (AList.update k v al) \<Longrightarrow> x \<in> set al \<or> x = (k, v)"
  by (induction al) (auto split: if_splits)

lemma status_processBorrowing:
  assumes "status_inv s"
  shows "status_inv (snd (processBorrowing s bid uid rid now now'))"
proof -
  obtain res s' where eq: "processBorrowing s bid uid rid now now' = (res, s')"
    by (cases "processBorrowing s bid uid rid now now'")
  from eq show ?thesis
  proof (cases rule: processBorrowing_cases)
    case (fail e)
    with assms eq show ?thesis by simp
  next
    case (ok book borrower)
    have "status_inv s'"
      using assms unfolding status_inv_def ok(8)
      by (auto dest!: set_update_cases simp: new_BorrowingRecord_def)
    with eq show ?thesis by simp
  qed
qed

lemma status_processReturn:
  assumes "status_inv s"
  shows "status_inv (snd (processReturn s bid uid now now'))"
proof -
  obtain res s' where eq: "processReturn s bid uid now now' = (res, s')"
    by (cases "processReturn s bid uid now now'")
  from eq show ?thesis
  proof (cases rule: processReturn_cases)
    case (fail e)
    with assms eq show ?thesis by simp
  next
    case (ok book borrower k r)
    have "status_inv s'"
      using assms unfolding status_inv_def ok(5)
      by (auto dest!: set_update_cases)
    with eq show ?thesis by simp
  qed
qed

lemma reachable_with_status_inv: "reachable_with P s \<Longrightarrow> status_inv s"
proof (induction rule: reachable_with.induct)
  case r_new show ?case by (simp add: status_inv_def new_Library_def)
next
  case (r_addBook s book) then show ?case by (simp add: status_inv_def addBook_def)
next
  case (r_removeBook s bid) then show ?case
    by (simp add: status_inv_def removeBook_def split: option.splits)
next
  case (r_registerUser s ud uid t1 t2) then show ?case
    by (simp add: status_inv_def registerUser_def Let_def)
next
  case r_processBorrowing then show ?case by (simp add: status_processBorrowing)
next
  case r_processReturn then show ?case by (simp add: status_processReturn)
next
  case (r_returnBook s uid bid) then show ?case
    by (simp add: status_inv_def updateUser_def split: option.splits)
next
  case (r_setAuthorized s uid v) then show ?case
    by (simp add: status_inv_def updateUser_def split: option.splits)
next
  case (r_setSuspensionEndDate s uid d) then show ?case
    by (simp add: status_inv_def updateUser_def split: option.splits)
next
  case (r_setRestricted s bid v) then show ?case
    by (simp add: status_inv_def updateBook_def split: option.splits)
next
  case (r_setPhysicalState s bid st) then show ?case
    by (simp add: status_inv_def updateBook_def split: option.splits)
qed

lemma reachable_status_inv: "reachable s \<Longrightarrow> status_inv s"
  unfolding reachable_def by (rule reachable_with_status_inv)

section \<open>The checks of a borrow\<close>

lemma processBorrowing_failure_unchanged:
  assumes "fst (processBorrowing s bid uid rid now now') = Inl e"
  shows "snd (processBorrowing s bid uid rid now now') = s"
proof -
  obtain res s' where eq: "processBorrowing s bid uid rid now now' = (res, s')"
    by (cases "processBorrowing s bid uid rid now now'")
  from eq show ?thesis
  proof (cases rule: processBorrowing_cases)
    case (fail e')
    with eq show ?thesis by simp
  next
    case (ok book borrower)
    with eq assms show ?thesis by simp
  qed
qed

text \<open>
  A borrow succeeds exactly when the six checks of \<open>processBorrowing\<close> pass; neither
  the account's suspension nor the book's physical state takes part.
\<close>

lemma processBorrowing_succeeds_iff:
  "(\<exists>r. fst (processBorrowing s bid uid rid now now') = Inr r) =
   (\<exists>book borrower. map_of (books s) bid = Some book \<and> map_of (users s) uid = Some borrower \<and>
      isAvailable book \<and> \<not> isRestricted book \<and> isAuthorized borrower \<and>
      int (length (borrowedBooks borrower)) < maxBooksAllowed borrower)"
  by (auto simp: processBorrowing_def getBook_def getUser_def Let_def split: option.splits)

text \<open>
  C1. The claim: \<open>borrow\<close> checks, in order, entry exists, account exists, entry
  available, entry not restricted, entry condition acceptable, account authorized, account
  not suspended, account under its cap, and fails with the error of the first violated
  check, a suspended account failing as unauthorized. \<open>processBorrowing\<close> has no check of
  the suspension and none of the physical state: for the authorized account suspended until
  day 100, on day 1, the account's own \<open>borrowBook\<close> refuses (its \<open>canBorrow\<close> tests
  the suspension), while \<open>processBorrowing\<close> creates the loan; and it lends the damaged
  book as well.
\<close>

theorem processBorrowing_lends_to_suspended_account:
  "reachable ex_suspended \<and> reachable ex_damaged \<and>
   map_of (users ex_suspended) ''user-001'' = Some ex_suspended_account \<and>
   isSuspended ex_suspended_account day_ms \<and>
   borrowBook ex_suspended_account ''book-001'' day_ms = Inl CannotBorrowLimitOrSuspended \<and>
   fst (processBorrowing ex_suspended ''book-001'' ''user-001'' ''rec-001'' day_ms day_ms)
     = Inr (new_BorrowingRecord ''rec-001'' ''book-001'' ''user-001'' day_ms (15 * day_ms)) \<and>
   fst (processBorrowing ex_damaged ''book-001'' ''user-001'' ''rec-001'' day_ms day_ms)
     = Inr (new_BorrowingRecord ''rec-001'' ''book-001'' ''user-001'' day_ms (15 * day_ms))"
proof -
  have "map_of (users ex_suspended) ''user-001'' = Some ex_suspended_account \<and>
   isSuspended ex_suspended_account day_ms \<and>
   borrowBook ex_suspended_account ''book-001'' day_ms = Inl CannotBorrowLimitOrSuspended \<and>
   fst (processBorrowing ex_suspended ''book-001'' ''user-001'' ''rec-001'' day_ms day_ms)
     = Inr (new_BorrowingRecord ''rec-001'' ''book-001'' ''user-001'' day_ms (15 * day_ms)) \<and>
   fst (processBorrowing ex_damaged ''book-001'' ''user-001'' ''rec-001'' day_ms day_ms)
     = Inr (new_BorrowingRecord ''rec-001'' ''book-001'' ''user-001'' day_ms (15 * day_ms))"
    by (simp add: ex2_defs ex_defs model_defs Let_def)
  with reachable_ex_suspended reachable_ex_damaged show ?thesis by blast
qed

text \<open>
  C10 as stated fails: the error of a newly registered account's borrow depends on the
  entry. For a book that is not in the catalogue it is the book-not-found error, and for
  the catalogued book once restricted it is the restricted error; neither is the
  not-authorized error.
\<close>

theorem fresh_account_error_depends_on_entry:
  "reachable ex_registered \<and> reachable ex_restricted \<and>
   processBorrowing ex_registered ''book-999'' ''user-001'' ''rec-001'' 0 0
     = (Inl (BookNotFound ''book-999''), ex_registered) \<and>
   processBorrowing ex_restricted ''book-001'' ''user-001'' ''rec-001'' 0 0
     = (Inl BookRestricted, ex_restricted) \<and>
   BookNotFound ''book-999'' \<noteq> BorrowerNotAuthorized \<and>
   BookRestricted \<noteq> BorrowerNotAuthorized"
proof -
  have "processBorrowing ex_registered ''book-999'' ''user-001'' ''rec-001'' 0 0
     = (Inl (BookNotFound ''book-999''), ex_registered) \<and>
   processBorrowing ex_restricted ''book-001'' ''user-001'' ''rec-001'' 0 0
     = (Inl BookRestricted, ex_restricted) \<and>
   BookNotFound ''book-999'' \<noteq> BorrowerNotAuthorized \<and>
   BookRestricted \<noteq> BorrowerNotAuthorized"
    by (simp add: ex2_defs ex_defs model_defs Let_def)
  with reachable_ex_registered reachable_ex_restricted show ?thesis by blast
qed

text \<open>
  C10, amended. Registration creates the account unauthorized with cap 3 and stores it.
  While an account is stored unauthorized, each of its borrows fails and leaves the library
  as it was; the error is that of the first failing check: book not found, book not
  available, book restricted, and the not-authorized error when the book is catalogued,
  available and unrestricted.
\<close>

theorem unauthorized_account_cannot_borrow:
  "(case registerUser s0 ud uid t1 t2 of (b, s1) \<Rightarrow>
      isAuthorized b = False \<and> maxBooksAllowed b = 3 \<and> map_of (users s1) uid = Some b) \<and>
   (map_of (users s) uid = Some u \<and> isAuthorized u = False \<longrightarrow>
      processBorrowing s bid uid rid now now' =
        (Inl (case map_of (books s) bid of
                None \<Rightarrow> BookNotFound bid
              | Some bk \<Rightarrow>
                  if \<not> isAvailable bk then BookNotAvailable
                  else if isRestricted bk then BookRestricted
                  else BorrowerNotAuthorized), s))"
  by (simp add: registerUser_def new_Borrower_def Let_def update_conv' processBorrowing_def
      getBook_def getUser_def split: option.splits)

text \<open>
  Witness for C10: the account of \<open>ex_registered\<close> is stored as registration created it,
  and its borrow of the catalogued book fails with the not-authorized error.
\<close>

theorem unauthorized_account_cannot_borrow_witness:
  "map_of (users ex_registered) ''user-001''
     = Some (fst (registerUser (snd (addBook ex_library (ex_book ''book-001'' TECHNOLOGY)))
                   ex_userData ''user-001'' 0 0)) \<and>
   processBorrowing ex_registered ''book-001'' ''user-001'' ''rec-001'' 0 0
     = (Inl BorrowerNotAuthorized, ex_registered)"
proof -
  let ?u = "fst (registerUser (snd (addBook ex_library (ex_book ''book-001'' TECHNOLOGY)))
                   ex_userData ''user-001'' 0 0)"
  have u: "map_of (users ex_registered) ''user-001'' = Some ?u" "isAuthorized ?u = False"
    by (simp_all add: ex_defs model_defs Let_def)
  have bk: "map_of (books ex_registered) ''book-001'' = Some (ex_book ''book-001'' TECHNOLOGY)"
    by (simp add: ex_defs model_defs Let_def)
  from unauthorized_account_cannot_borrow
         [where s = ex_registered and uid = "''user-001''" and u = ?u and bid = "''book-001''"
            and rid = "''rec-001''" and now = 0 and now' = 0] u bk
  show ?thesis by (simp add: ex_book_def new_Book_def)
qed

section \<open>The eligibility gate\<close>

text \<open>
  C3. The claim: \<open>canBorrow\<close> is true exactly when the account is authorized, not
  suspended now, and under its cap. For a newly constructed account, which is not
  authorized, \<open>canBorrow\<close> is true at every time: the conjunct meant to test the account's
  activity is the method object, not its call.
\<close>

theorem canBorrow_ignores_authorization:
  "isAuthorized (new_Borrower uid nm fn em ph addr t1 t2) = False \<and>
   canBorrow (new_Borrower uid nm fn em ph addr t1 t2) now = True"
  by (simp add: canBorrow_def isSuspended_def new_Borrower_def)

section \<open>The due date\<close>

text \<open>
  C5. The claim: the due date is the borrow date plus the period of the book's category, 7
  days for the reference category. \<open>calculateDueDate\<close> does not receive the category:
  the book of category \<open>REFERENCE\<close> in \<open>ex_member\<close>, borrowed at time 0, is due on day
  14, not on day \<open>REFERENCE_BORROWING_PERIOD\<close>.
\<close>

theorem reference_book_due_in_14_days:
  "reachable ex_member \<and>
   map_of (books ex_member) ''book-003'' = Some (ex_book ''book-003'' REFERENCE) \<and>
   category (ex_book ''book-003'' REFERENCE) = REFERENCE \<and>
   fst (processBorrowing ex_member ''book-003'' ''user-001'' ''rec-001'' 0 0)
     = Inr (new_BorrowingRecord ''rec-001'' ''book-003'' ''user-001'' 0 (14 * day_ms)) \<and>
   14 * day_ms \<noteq> 0 + REFERENCE_BORROWING_PERIOD * day_ms"
proof -
  have "map_of (books ex_member) ''book-003'' = Some (ex_book ''book-003'' REFERENCE) \<and>
   category (ex_book ''book-003'' REFERENCE) = REFERENCE \<and>
   fst (processBorrowing ex_member ''book-003'' ''user-001'' ''rec-001'' 0 0)
     = Inr (new_BorrowingRecord ''rec-001'' ''book-003'' ''user-001'' 0 (14 * day_ms)) \<and>
   14 * day_ms \<noteq> 0 + REFERENCE_BORROWING_PERIOD * day_ms"
    by (simp add: ex_full_defs ex_defs model_defs REFERENCE_BORROWING_PERIOD_def Let_def)
  with reachable_ex_member show ?thesis by blast
qed

section \<open>The return of a loan\<close>

text \<open>
  Without a loan record of the book and the borrower whose status is \<open>ACTIVE\<close>, a return
  fails and leaves the library as it was.
\<close>

lemma processReturn_needs_active_record:
  assumes "map_of (books s) bid = Some b" and "map_of (users s) uid = Some u"
    and "\<not> (\<exists>(k, r) \<in> set (borrowingRecords s).
              bookId r = bid \<and> borrowerId r = uid \<and> status r = ACTIVE)"
  shows "processReturn s bid uid now now' = (Inl NoActiveBorrowingRecord, s)"
proof -
  from assms(3) have "findActiveRecord s bid uid = None"
    unfolding findActiveRecord_def find_None_iff by fastforce
  with assms(1,2) show ?thesis
    by (simp add: processReturn_def getBook_def getUser_def)
qed

text \<open>
  C4 as stated fails in its fee clause. In the reachable state \<open>ex_borrowed\<close> the loan is
  due on day 14 and is returned on day 30, 16 days late, for which the claim's formula
  gives the fee 7.5. The return yields no value and the library \<open>ex_returned\<close>, which
  differs from \<open>ex_borrowed\<close> in three writes: the record's \<open>returnDate\<close> and
  \<open>status\<close>, the book's \<open>isAvailable\<close> and \<open>lastModified\<close>, the account's
  \<open>borrowedBooks\<close>. No fee is part of the result.
\<close>

theorem late_return_computes_no_fee:
  "reachable ex_borrowed \<and>
   map_of (borrowingRecords ex_borrowed) ''rec-001'' = Some ex_loan \<and>
   dueDate ex_loan = 14 * day_ms \<and> dueDate ex_loan < 30 * day_ms \<and>
   (30 * day_ms - dueDate ex_loan) div day_ms = 16 \<and>
   min ((16 - LATE_FEE_GRACE_PERIOD) * LATE_FEE_PER_DAY) MAX_LATE_FEE = 7.5 \<and>
   processReturn ex_borrowed ''book-001'' ''user-001'' (30 * day_ms) (30 * day_ms)
     = (Inr (), ex_returned) \<and>
   map_of (borrowingRecords ex_returned) ''rec-001''
     = Some (ex_loan\<lparr>returnDate := Some (30 * day_ms), status := RETURNED\<rparr>)"
proof -
  have "map_of (borrowingRecords ex_borrowed) ''rec-001'' = Some ex_loan \<and>
   dueDate ex_loan = 14 * day_ms \<and> dueDate ex_loan < 30 * day_ms \<and>
   (30 * day_ms - dueDate ex_loan) div day_ms = 16 \<and>
   min ((16 - LATE_FEE_GRACE_PERIOD) * LATE_FEE_PER_DAY) MAX_LATE_FEE = 7.5 \<and>
   processReturn ex_borrowed ''book-001'' ''user-001'' (30 * day_ms) (30 * day_ms)
     = (Inr (), ex_returned) \<and>
   map_of (borrowingRecords ex_returned) ''rec-001''
     = Some (ex_loan\<lparr>returnDate := Some (30 * day_ms), status := RETURNED\<rparr>)"
    by (simp add: ex_returned_def ex_loan_def updateRecord_def ex_defs model_defs Let_def
        LATE_FEE_GRACE_PERIOD_def LATE_FEE_PER_DAY_def MAX_LATE_FEE_def)
  with reachable_ex_borrowed show ?thesis by blast
qed

text \<open>
  C4, amended. In every reachable state, for every open loan (not returned, status
  neither \<open>RETURNED\<close> nor \<open>CANCELLED\<close>) of a stored book and a stored borrower, the return
  succeeds: it sets the \<open>returnDate\<close> of that loan record to the current time and its
  status to \<open>RETURNED\<close>, makes the book available, and removes the book from the
  borrower's \<open>borrowedBooks\<close>. That is all it does, whether or not the return is after the
  due date: it yields no value and writes nothing else, so no late fee is computed or
  stored.
\<close>

theorem processReturn_closes_open_loan:
  assumes reach: "reachable s"
    and book: "map_of (books s) bid = Some b"
    and user: "map_of (users s) uid = Some u"
    and loan: "(k, r) \<in> set (borrowingRecords s)" "bookId r = bid" "borrowerId r = uid"
    and unreturned: "returnDate r = None" "status r \<noteq> RETURNED" "status r \<noteq> CANCELLED"
  shows "processReturn s bid uid now now' =
           (Inr (),
            s\<lparr>borrowingRecords := AList.update k
                 (r\<lparr>returnDate := Some now, status := RETURNED\<rparr>) (borrowingRecords s),
              books := AList.update bid (b\<lparr>isAvailable := True, lastModified := now'\<rparr>)
                 (books s),
              users := AList.update uid
                 (u\<lparr>borrowedBooks := filter (\<lambda>i. i \<noteq> bid) (borrowedBooks u)\<rparr>)
                 (users s)\<rparr>)"
proof -
  from reach have inv: "ledger_inv s" by (rule reachable_ledger_inv)
  then have keys: "distinct (map fst (borrowingRecords s))" by (simp add: ledger_inv_def)
  from reach have "status_inv s" by (rule reachable_status_inv)
  with loan(1) unreturned(2) have act: "status r = ACTIVE" unfolding status_inv_def by fastforce
  from loan(1) keys have kr: "map_of (borrowingRecords s) k = Some r" by simp
  let ?P = "\<lambda>(k, r). bookId r = bid \<and> borrowerId r = uid \<and> status r = ACTIVE"
  have P: "?P (k, r)" using loan(2,3) act by simp
  have uniq: "\<forall>y\<in>set (borrowingRecords s). ?P y \<longrightarrow> y = (k, r)"
  proof (intro ballI impI)
    fix y assume y: "y \<in> set (borrowingRecords s)" "?P y"
    obtain k' r' where y': "y = (k', r')" by (cases y)
    with y(1) keys have l': "map_of (borrowingRecords s) k' = Some r'" by simp
    from y(2) y' have o': "isOpen r'" "bookId r' = bid" by (simp_all add: isOpen_def)
    from act have o: "isOpen r" by (simp add: isOpen_def)
    from inv l' kr o' o loan(2) have "k' = k" unfolding ledger_inv_def by blast
    with l' kr y' show "y = (k, r)" by simp
  qed
  have fnd: "findActiveRecord s bid uid = Some (k, r)"
    unfolding findActiveRecord_def by (rule find_unique [OF loan(1) P uniq])
  show ?thesis
    by (simp add: processReturn_def getBook_def getUser_def book user fnd Let_def)
qed

text \<open>
  Witness for C4: the open loan of \<open>ex_borrowed\<close>, due on day 14, returned on day 30; the
  library after the return is \<open>ex_returned\<close>.
\<close>

theorem processReturn_closes_open_loan_witness:
  "reachable ex_borrowed \<and>
   (''rec-001'', ex_loan) \<in> set (borrowingRecords ex_borrowed) \<and>
   returnDate ex_loan = None \<and> status ex_loan = ACTIVE \<and>
   fst (processReturn ex_borrowed ''book-001'' ''user-001'' (30 * day_ms) (30 * day_ms))
     = Inr () \<and>
   map_of (borrowingRecords
      (snd (processReturn ex_borrowed ''book-001'' ''user-001'' (30 * day_ms) (30 * day_ms))))
      ''rec-001''
     = Some (ex_loan\<lparr>returnDate := Some (30 * day_ms), status := RETURNED\<rparr>)"
proof -
  obtain b where book: "map_of (books ex_borrowed) ''book-001'' = Some b"
    by (simp add: ex_defs model_defs Let_def)
  obtain u where user: "map_of (users ex_borrowed) ''user-001'' = Some u"
    by (simp add: ex_defs model_defs Let_def)
  have loan: "(''rec-001'', ex_loan) \<in> set (borrowingRecords ex_borrowed)"
    "bookId ex_loan = ''book-001''" "borrowerId ex_loan = ''user-001''"
    by (simp_all add: ex_loan_def ex_defs model_defs Let_def)
  have op: "returnDate ex_loan = None" "status ex_loan \<noteq> RETURNED"
    "status ex_loan \<noteq> CANCELLED" "status ex_loan = ACTIVE"
    by (simp_all add: ex_loan_def new_BorrowingRecord_def)
  note r = processReturn_closes_open_loan
    [OF reachable_ex_borrowed book user loan op(1,2,3), of "30 * day_ms" "30 * day_ms"]
  have a: "fst (processReturn ex_borrowed ''book-001'' ''user-001'' (30 * day_ms) (30 * day_ms))
     = Inr ()" by (simp add: r)
  have c: "map_of (borrowingRecords
      (snd (processReturn ex_borrowed ''book-001'' ''user-001'' (30 * day_ms) (30 * day_ms))))
      ''rec-001''
     = Some (ex_loan\<lparr>returnDate := Some (30 * day_ms), status := RETURNED\<rparr>)"
    by (simp add: r update_conv')
  from reachable_ex_borrowed loan(1) op(1,4) a c show ?thesis by blast
qed

section \<open>The overdue scan\<close>

text \<open>
  C6 as stated fails: on day 30 the scan of \<open>ex_unsorted\<close> lists the loan due on day 20
  before the loan due on day 14, and does not list the third loan, which is open
  (\<open>EXTENDED\<close>, not returned) and was due on day 14.
\<close>

theorem overdue_list_not_sorted:
  "map (\<lambda>r. (record_id r, dueDate r)) (getOverdueBorrowings ex_unsorted (30 * day_ms))
     = [(''rec-001'', 20 * day_ms), (''rec-002'', 14 * day_ms)] \<and>
   \<not> sorted (map dueDate (getOverdueBorrowings ex_unsorted (30 * day_ms))) \<and>
   map_of (borrowingRecords ex_unsorted) ''rec-003''
     = Some ((new_BorrowingRecord ''rec-003'' ''book-003'' ''user-001'' 0 (14 * day_ms))
              \<lparr>status := EXTENDED\<rparr>)"
  by (simp add: ex2_defs ex_full_defs ex_defs model_defs Let_def)

text \<open>
  C6, amended. \<open>getOverdueBorrowings\<close> returns exactly the loan records with status
  \<open>ACTIVE\<close> and no \<open>returnDate\<close> whose due date is strictly before now, in the
  ledger's insertion order; the result is ascending by due date whenever the ledger is.
\<close>

theorem getOverdueBorrowings_selection:
  "set (getOverdueBorrowings s now) =
     {r \<in> snd ` set (borrowingRecords s).
        status r = ACTIVE \<and> returnDate r = None \<and> dueDate r < now} \<and>
   subseq (getOverdueBorrowings s now) (map snd (borrowingRecords s)) \<and>
   (sorted (map dueDate (map snd (borrowingRecords s))) \<longrightarrow>
      sorted (map dueDate (getOverdueBorrowings s now)))"
proof (intro conjI impI)
  show "set (getOverdueBorrowings s now) =
     {r \<in> snd ` set (borrowingRecords s).
        status r = ACTIVE \<and> returnDate r = None \<and> dueDate r < now}"
    by (auto simp: getOverdueBorrowings_def)
  show "subseq (getOverdueBorrowings s now) (map snd (borrowingRecords s))"
    by (simp add: getOverdueBorrowings_def)
  assume "sorted (map dueDate (map snd (borrowingRecords s)))"
  then show "sorted (map dueDate (getOverdueBorrowings s now))"
    unfolding getOverdueBorrowings_def by (rule sorted_filter)
qed

text \<open>
  Witness for C6: the three loans of \<open>ex_full\<close>, all due on day 14, scanned on day 30.
\<close>

theorem getOverdueBorrowings_selection_witness:
  "sorted (map dueDate (map snd (borrowingRecords ex_full))) \<and>
   length (getOverdueBorrowings ex_full (30 * day_ms)) = 3 \<and>
   sorted (map dueDate (getOverdueBorrowings ex_full (30 * day_ms)))"
proof -
  have s: "sorted (map dueDate (map snd (borrowingRecords ex_full)))"
    by (simp add: ex_full_defs ex_defs model_defs Let_def)
  have l: "length (getOverdueBorrowings ex_full (30 * day_ms)) = 3"
    by (simp add: ex_full_defs ex_defs model_defs Let_def)
  from getOverdueBorrowings_selection [of ex_full "30 * day_ms"] s l
  show ?thesis by blast
qed

text \<open>
  C7 as stated fails: on day 30 the scan of \<open>ex_borrowed\<close> lists the loan due on day 14,
  not returned, with its status still \<open>ACTIVE\<close>.
\<close>

theorem overdue_scan_leaves_status_active:
  "map (\<lambda>r. (record_id r, status r, returnDate r, dueDate r < 30 * day_ms))
     (getOverdueBorrowings ex_borrowed (30 * day_ms)) = [(''rec-001'', ACTIVE, None, True)]"
  by (simp add: ex_defs model_defs Let_def)

text \<open>
  C7, amended. The overdue scan is a query: every loan it lists has status \<open>ACTIVE\<close>, a
  due date before now and no \<open>returnDate\<close>; scanning its own result selects all of it
  again; and in no reachable state does a loan have status \<open>OVERDUE\<close>.
\<close>

theorem overdue_scan_is_query:
  "(\<forall>r \<in> set (getOverdueBorrowings s now).
      status r = ACTIVE \<and> dueDate r < now \<and> returnDate r = None) \<and>
   filter (\<lambda>r. status r = ACTIVE \<and> dueDate r < now \<and> returnDate r = None)
      (getOverdueBorrowings s now) = getOverdueBorrowings s now \<and>
   (reachable s \<longrightarrow> (\<forall>(k, r) \<in> set (borrowingRecords s). status r \<noteq> OVERDUE))"
proof (intro conjI impI)
  show "\<forall>r \<in> set (getOverdueBorrowings s now).
      status r = ACTIVE \<and> dueDate r < now \<and> returnDate r = None"
    by (simp add: getOverdueBorrowings_def)
  show "filter (\<lambda>r. status r = ACTIVE \<and> dueDate r < now \<and> returnDate r = None)
      (getOverdueBorrowings s now) = getOverdueBorrowings s now"
    by (simp add: getOverdueBorrowings_def)
  assume "reachable s"
  then have "status_inv s" by (rule reachable_status_inv)
  then show "\<forall>(k, r) \<in> set (borrowingRecords s). status r \<noteq> OVERDUE"
    unfolding status_inv_def by fastforce
qed

text \<open>
  Witness for C7: the reachable state \<open>ex_borrowed\<close>, scanned on day 30.
\<close>

theorem overdue_scan_is_query_witness:
  "reachable ex_borrowed \<and>
   status ` set (getOverdueBorrowings ex_borrowed (30 * day_ms)) = {ACTIVE} \<and>
   OVERDUE \<notin> (\<lambda>(k, r). status r) ` set (borrowingRecords ex_borrowed)"
proof -
  have ne: "getOverdueBorrowings ex_borrowed (30 * day_ms) \<noteq> []"
    by (simp add: ex_defs model_defs Let_def)
  note q = overdue_scan_is_query [of ex_borrowed "30 * day_ms"]
  from q have "\<forall>r \<in> set (getOverdueBorrowings ex_borrowed (30 * day_ms)). status r = ACTIVE"
    by blast
  with ne have a: "status ` set (getOverdueBorrowings ex_borrowed (30 * day_ms)) = {ACTIVE}"
    by (cases "getOverdueBorrowings ex_borrowed (30 * day_ms)") auto
  from q reachable_ex_borrowed
  have "\<forall>(k, r) \<in> set (borrowingRecords ex_borrowed). status r \<noteq> OVERDUE" by blast
  then have b: "OVERDUE \<notin> (\<lambda>(k, r). status r) ` set (borrowingRecords ex_borrowed)"
    by fastforce
  from reachable_ex_borrowed a b show ?thesis by blast
qed

end
